theory Spec2Isabelle
  imports Main "HOL-Library.Word" "HOL-Library.Monad_Syntax"
begin

unbundle bit_operations_syntax

section \<open>The memory-mapped Robin-Hood map \<open>mmap_lib::map\<close>\<close>

text \<open>
  The development follows \<open>mmap_map.hpp\<close> (class \<open>mmap_lib::detail::map\<close>), function by
  function. Conventions of the embedding:
  \<^item> a call that does not return (a spin on a held mutex, a loop that never ends, a failed
    \<open>assert\<close>) is the value \<open>None\<close> of the option monad;
  \<^item> \<open>size_t\<close>/\<open>uint64_t\<close> header fields are \<open>nat\<close>; decrement and doubling wrap modulo
    \<open>2 ^ 64\<close> where the source can wrap;
  \<^item> \<open>InfoType\<close> (\<open>int32_t\<close>) is \<open>int\<close>; an info byte is an \<open>8 word\<close>, read with \<open>uint\<close>
    and written with \<open>word_of_int\<close> (the \<open>static_cast<uint8_t>\<close>);
  \<open>int idx\<close> is a \<open>nat\<close>: the source indexes the arrays with it, so it is only meaningful
    while it is not negative (\<open>mask < 2 ^ 31\<close>);
  \<^item> the info bytes and the nodes of a mapped region are two arrays, \<open>nat \<Rightarrow> _\<close>.
\<close>

type_synonym u8 = "8 word"
type_synonym u64 = "64 word"

subsection \<open>Compile-time constants\<close>

definition InitialNumElements :: nat where
  "InitialNumElements = 1024"

definition InitialInfoNumBits :: nat where
  "InitialInfoNumBits = 5"

text \<open>\<open>sizeof(int)\<close> on the LP64 and LLP64 data models of 64-bit builds.\<close>
definition sizeof_int :: nat where
  "sizeof_int = 4"

definition InitialInfoInc :: int where
  "InitialInfoInc = 2 ^ InitialInfoNumBits"

definition InitialInfoHashShift :: int where
  "InitialInfoHashShift = int (sizeof_int * 8 - InitialInfoNumBits)"

definition u64_max :: nat where
  "u64_max = 2 ^ 64 - 1"

subsection \<open>Data model\<close>

text \<open>A mapped region: the five header words, the info bytes and the nodes.\<close>
record ('k, 'v) region =
  r_mMask :: nat
  r_mNumElements :: nat
  r_mMaxNumElementsAllowed :: nat
  r_mInfoInc :: int
  r_mInfoHashShift :: int
  r_mInfo :: "nat \<Rightarrow> u8"
  r_mKeyVals :: "nat \<Rightarrow> 'k \<times> 'v"

text \<open>The backing file of the map: absent, of length zero, or holding a region.\<close>
datatype ('k, 'v) bfile = NoFile | EmptyFile | FileData "('k, 'v) region"

text \<open>
  The map object together with the memory it points to (\<open>mem\<close>) and its backing file
  (\<open>disk\<close>). \<open>hash_fn\<close> is the \<open>Hash\<close> base class, \<open>hash_is_default\<close> says whether it is
  \<open>mmap_lib::hash<Key>\<close>; \<open>LoadFactor100\<close> and \<open>sizeof_Node\<close> are the template-dependent
  constants \<open>MaxLoadFactor100\<close> and \<open>sizeof(Node)\<close>. \<open>mmap_base = 0\<close> is the null pointer.
\<close>
record ('k, 'v) pmap =
  hash_fn :: "'k \<Rightarrow> u64"
  hash_is_default :: bool
  LoadFactor100 :: nat
  sizeof_Node :: nat
  mmap_name :: string
  mmap_fd :: int
  mmap_size :: nat
  mmap_base :: nat
  local_mNumElements :: nat
  local_mMask :: nat
  local_mMaxNumElementsAllowed :: nat
  in_use_mutex :: bool
  ref_locked :: int
  mem :: "('k, 'v) region"
  disk :: "('k, 'v) bfile"
  gc_last_base :: nat

text \<open>
  The header pointers \<open>mMask\<close>, \<open>mNumElements\<close>, \<open>mMaxNumElementsAllowed\<close> point to the
  \<open>local_\<close> fields exactly while \<open>mmap_base\<close> is null (\<open>setup_pointers\<close>, \<open>gc_done\<close>) and
  into the mapped header otherwise (\<open>setup_mmap\<close>); \<open>mInfoInc\<close> and \<open>mInfoHashShift\<close>
  start at the two static initial values.
\<close>
definition mMask :: "('k, 'v) pmap \<Rightarrow> nat" where
  "mMask s = (if mmap_base s = 0 then local_mMask s else r_mMask (mem s))"

definition mNumElements :: "('k, 'v) pmap \<Rightarrow> nat" where
  "mNumElements s = (if mmap_base s = 0 then local_mNumElements s else r_mNumElements (mem s))"

definition mMaxNumElementsAllowed :: "('k, 'v) pmap \<Rightarrow> nat" where
  "mMaxNumElementsAllowed s =
     (if mmap_base s = 0 then local_mMaxNumElementsAllowed s
      else r_mMaxNumElementsAllowed (mem s))"

definition mInfoInc :: "('k, 'v) pmap \<Rightarrow> int" where
  "mInfoInc s = (if mmap_base s = 0 then InitialInfoInc else r_mInfoInc (mem s))"

definition mInfoHashShift :: "('k, 'v) pmap \<Rightarrow> int" where
  "mInfoHashShift s = (if mmap_base s = 0 then InitialInfoHashShift else r_mInfoHashShift (mem s))"

definition mInfo :: "('k, 'v) pmap \<Rightarrow> nat \<Rightarrow> u8" where
  "mInfo s = r_mInfo (mem s)"

definition mKeyVals :: "('k, 'v) pmap \<Rightarrow> nat \<Rightarrow> 'k \<times> 'v" where
  "mKeyVals s = r_mKeyVals (mem s)"

text \<open>Stores through the header pointers and into the two arrays.\<close>
definition set_mNumElements :: "nat \<Rightarrow> ('k, 'v) pmap \<Rightarrow> ('k, 'v) pmap" where
  "set_mNumElements n s =
     (if mmap_base s = 0 then s\<lparr>local_mNumElements := n\<rparr>
      else s\<lparr>mem := (mem s)\<lparr>r_mNumElements := n\<rparr>\<rparr>)"

definition set_mMaxNumElementsAllowed :: "nat \<Rightarrow> ('k, 'v) pmap \<Rightarrow> ('k, 'v) pmap" where
  "set_mMaxNumElementsAllowed n s =
     (if mmap_base s = 0 then s\<lparr>local_mMaxNumElementsAllowed := n\<rparr>
      else s\<lparr>mem := (mem s)\<lparr>r_mMaxNumElementsAllowed := n\<rparr>\<rparr>)"

definition set_mInfo :: "(nat \<Rightarrow> u8) \<Rightarrow> ('k, 'v) pmap \<Rightarrow> ('k, 'v) pmap" where
  "set_mInfo mi s = s\<lparr>mem := (mem s)\<lparr>r_mInfo := mi\<rparr>\<rparr>"

definition set_mKeyVals :: "(nat \<Rightarrow> 'k \<times> 'v) \<Rightarrow> ('k, 'v) pmap \<Rightarrow> ('k, 'v) pmap" where
  "set_mKeyVals kv s = s\<lparr>mem := (mem s)\<lparr>r_mKeyVals := kv\<rparr>\<rparr>"

definition assert_that :: "bool \<Rightarrow> unit option" where
  "assert_that b = (if b then Some () else None)"

text \<open>The map as the constructors leave it (\<open>setup_pointers\<close>): nothing mapped.\<close>
definition zero_region :: "('k::zero, 'v::zero) region" where
  "zero_region = \<lparr>r_mMask = 0, r_mNumElements = 0, r_mMaxNumElementsAllowed = 0,
     r_mInfoInc = 0, r_mInfoHashShift = 0, r_mInfo = (\<lambda>_. 0), r_mKeyVals = (\<lambda>_. (0, 0))\<rparr>"

definition new_map :: "('k \<Rightarrow> u64) \<Rightarrow> bool \<Rightarrow> nat \<Rightarrow> nat \<Rightarrow> string \<Rightarrow> ('k::zero, 'v::zero) pmap" where
  "new_map h dflt lf sz name = \<lparr>hash_fn = h, hash_is_default = dflt, LoadFactor100 = lf,
     sizeof_Node = sz, mmap_name = name, mmap_fd = -1, mmap_size = 0, mmap_base = 0,
     local_mNumElements = 0, local_mMask = 0, local_mMaxNumElementsAllowed = 0,
     in_use_mutex = False, ref_locked = 0, mem = zero_region, disk = NoFile,
     gc_last_base = 0\<rparr>"

subsection \<open>Hashers\<close>

text \<open>\<open>hash<uint64_t>\<close>: the murmurhash 3 finalizer.\<close>
definition hash_u64 :: "u64 \<Rightarrow> u64" where
  "hash_u64 obj =
     (let h1 = obj XOR drop_bit 33 obj;
          h2 = h1 * 0xff51afd7ed558ccd;
          h3 = h2 XOR drop_bit 33 h2;
          h4 = h3 * 0xc4ceb9fe1a85ec53
      in h4 XOR drop_bit 33 h4)"

text \<open>\<open>hash<uint32_t>\<close>: one multiplication, the upper half of the product.\<close>
definition hash_u32 :: "32 word \<Rightarrow> u64" where
  "hash_u32 h = drop_bit 32 (0xca4bcaa75ec3f625 * (ucast h :: u64))"

definition bad_hash_prevention :: "bool \<Rightarrow> u64" where
  "bad_hash_prevention dflt = (if dflt then 1 else 0xb3727c1f779b8d8b)"

subsection \<open>Sizes and the load factor\<close>

definition calcNumBytesInfo :: "nat \<Rightarrow> nat" where
  "calcNumBytesInfo numElements = (numElements + 1) + 8"

definition calcNumBytesNode :: "nat \<Rightarrow> nat \<Rightarrow> nat" where
  "calcNumBytesNode szNode numElements = szNode * numElements"

definition calcNumBytesTotal :: "nat \<Rightarrow> nat \<Rightarrow> nat" where
  "calcNumBytesTotal szNode numElements =
     calcNumBytesInfo numElements + calcNumBytesNode szNode numElements"

definition calc_mmap_size :: "nat \<Rightarrow> nat \<Rightarrow> nat" where
  "calc_mmap_size szNode nelems = (3 + 2) * 8 + calcNumBytesTotal szNode nelems"

text \<open>
  The \<open>double\<close> arithmetic of \<open>calcMaxNumElementsAllowed\<close> (IEEE 754 binary64, rounding to
  nearest, ties to even). A finite positive \<open>double\<close> is a pair \<open>(m, e)\<close> that stands for
  \<open>m * 2 ^ e\<close>, with a significand \<open>m\<close> of at most 53 bits.
\<close>
fun bitlen :: "nat \<Rightarrow> nat" where
  "bitlen n = (if n = 0 then 0 else Suc (bitlen (n div 2)))"

declare bitlen.simps [simp del]

text \<open>The quotient \<open>x / b\<close> rounded to the nearest integer, ties to even.\<close>
definition rne :: "nat \<Rightarrow> nat \<Rightarrow> nat" where
  "rne x b = (let q = x div b; r = x mod b
              in if b < 2 * r \<or> (2 * r = b \<and> odd q) then q + 1 else q)"

definition round53 :: "nat \<times> int \<Rightarrow> nat \<times> int" where
  "round53 d = (case d of (m, e) \<Rightarrow>
     if bitlen m \<le> 53 then (m, e)
     else (let sh = bitlen m - 53 in (rne m (2 ^ sh), e + int sh)))"

text \<open>\<open>static_cast<double>(n)\<close> for a \<open>size_t\<close>.\<close>
definition double_of_size_t :: "nat \<Rightarrow> nat \<times> int" where
  "double_of_size_t n = round53 (n, 0)"

text \<open>The quotient \<open>a / b\<close> of two small positive integers, as in \<open>MaxLoadFactor100 / 100.0\<close>.\<close>
definition double_div :: "nat \<Rightarrow> nat \<Rightarrow> nat \<times> int" where
  "double_div a b =
     (let k0 = 53 + bitlen b - bitlen a;
          k = (if 2 ^ 53 \<le> (a * 2 ^ k0) div b then k0 - 1 else k0)
      in (rne (a * 2 ^ k) b, - int k))"

definition double_mul :: "nat \<times> int \<Rightarrow> nat \<times> int \<Rightarrow> nat \<times> int" where
  "double_mul x y = (case x of (m1, e1) \<Rightarrow> case y of (m2, e2) \<Rightarrow> round53 (m1 * m2, e1 + e2))"

text \<open>\<open>static_cast<size_t>(d)\<close>: truncation.\<close>
definition size_t_of_double :: "nat \<times> int \<Rightarrow> nat" where
  "size_t_of_double d = (case d of (m, e) \<Rightarrow>
     if 0 \<le> e then m * 2 ^ nat e else m div 2 ^ nat (- e))"

text \<open>
  \<open>overflowLimit\<close> is \<open>SIZE_MAX / 100\<close>; above it the product is computed in \<open>double\<close>, with
  \<open>factor = MaxLoadFactor100 / 100.0\<close>.
\<close>
definition calcMaxNumElementsAllowed :: "nat \<Rightarrow> nat \<Rightarrow> nat" where
  "calcMaxNumElementsAllowed lf maxElements =
     (if maxElements > u64_max div 100
      then size_t_of_double (double_mul (double_of_size_t maxElements) (double_div lf 100))
      else (maxElements * lf) div 100)"

subsection \<open>The collaborator \<open>mmap_gc\<close>\<close>

text \<open>
  Modelled from the spec: \<open>mmap_gc\<close> (\<open>mmap_gc.hpp\<close> is not part of the sources).
  \<open>open(name)\<close> returns a descriptor and creates the file when it is absent;
  \<open>mmap(name, fd, size, callback)\<close> returns a base address and the size, the region being
  the file's content, or zero bytes for a new file or an anonymous mapping;
  \<open>delete_file(base)\<close> unlinks the backing file; \<open>recycle(base)\<close> invokes the owner's
  callback \<open>gc_done\<close> (below) at once.
\<close>
definition gc_open :: "('k, 'v) pmap \<Rightarrow> int \<times> ('k, 'v) pmap" where
  "gc_open s = (3, (case disk s of NoFile \<Rightarrow> s\<lparr>disk := EmptyFile\<rparr> | _ \<Rightarrow> s))"

definition gc_mmap :: "('k::zero, 'v::zero) pmap \<Rightarrow> nat \<Rightarrow> (nat \<times> nat \<times> ('k, 'v) region) \<times> ('k, 'v) pmap" where
  "gc_mmap s sz =
     (let r = (if mmap_fd s < 0 then zero_region
               else (case disk s of FileData d \<Rightarrow> d | _ \<Rightarrow> zero_region));
          base = Suc (gc_last_base s)
      in ((base, sz, r),
          s\<lparr>gc_last_base := base, disk := (if mmap_fd s < 0 then disk s else FileData r)\<rparr>))"

definition gc_delete_file :: "('k, 'v) pmap \<Rightarrow> ('k, 'v) pmap" where
  "gc_delete_file s = s\<lparr>disk := NoFile\<rparr>"

definition unlink :: "('k, 'v) pmap \<Rightarrow> ('k, 'v) pmap" where
  "unlink s = s\<lparr>disk := NoFile\<rparr>"

subsection \<open>Locks\<close>

text \<open>The spin \<open>while (atomic_exchange(&in_use_mutex, true));\<close> of a single thread.\<close>
definition spin_lock :: "('k, 'v) pmap \<Rightarrow> ('k, 'v) pmap option" where
  "spin_lock s = (if in_use_mutex s then None else Some (s\<lparr>in_use_mutex := True\<rparr>))"

text \<open>\<open>if (!ref_locked) while (...) ;\<close> and \<open>if (!ref_locked) in_use_mutex.store(false)\<close>.\<close>
definition lock_enter :: "('k, 'v) pmap \<Rightarrow> ('k, 'v) pmap option" where
  "lock_enter s = (if ref_locked s = 0 then spin_lock s else Some s)"

definition lock_exit :: "('k, 'v) pmap \<Rightarrow> ('k, 'v) pmap" where
  "lock_exit s = (if ref_locked s = 0 then s\<lparr>in_use_mutex := False\<rparr> else s)"

definition ref_lock :: "('k, 'v) pmap \<Rightarrow> ('k, 'v) pmap option" where
  "ref_lock s = do {
     s1 \<leftarrow> (if ref_locked s = 0 then spin_lock s else Some s);
     Some (s1\<lparr>ref_locked := ref_locked s1 + 1\<rparr>)
   }"

definition ref_unlock :: "('k, 'v) pmap \<Rightarrow> ('k, 'v) pmap option" where
  "ref_unlock s = do {
     assert_that (ref_locked s \<noteq> 0);
     let s1 = s\<lparr>ref_locked := ref_locked s - 1\<rparr>;
     assert_that (in_use_mutex s1);
     Some (if ref_locked s1 = 0 then s1\<lparr>in_use_mutex := False\<rparr> else s1)
   }"

definition get_lock_num :: "('k, 'v) pmap \<Rightarrow> int" where
  "get_lock_num s = ref_locked s"

subsection \<open>Reclamation and mapping\<close>

definition size_map :: "('k, 'v) pmap \<Rightarrow> nat" where
  "size_map s = mNumElements s"

definition empty_map :: "('k, 'v) pmap \<Rightarrow> bool" where
  "empty_map s = (0 = mNumElements s)"

text \<open>
  \<open>gc_done(base, force_recycle)\<close>. The nodes written through the mapping are the file's
  content once the region is unmapped (unless the file has just been unlinked).
\<close>
definition gc_done :: "('k, 'v) pmap \<Rightarrow> nat \<Rightarrow> (bool \<times> ('k, 'v) pmap) option" where
  "gc_done s base =
     (if mmap_base s \<noteq> base then Some (False, s)
      else if in_use_mutex s then Some (False, s)
      else do {
        let s1 = s\<lparr>in_use_mutex := True\<rparr>;
        assert_that (ref_locked s1 = 0);
        let s2 = (if mmap_fd s1 \<ge> 0
                  then (if empty_map s1 then (unlink s1)\<lparr>mmap_size := 0\<rparr>
                        else s1\<lparr>disk := (case disk s1 of NoFile \<Rightarrow> NoFile | _ \<Rightarrow> FileData (mem s1))\<rparr>)
                  else s1\<lparr>mmap_size := 0\<rparr>);
        assert_that (mmap_base s2 \<noteq> 0);
        let s3 = s2\<lparr>local_mMask := r_mMask (mem s2),
                    local_mNumElements := r_mNumElements (mem s2),
                    local_mMaxNumElementsAllowed := r_mMaxNumElementsAllowed (mem s2)\<rparr>;
        Some (True, s3\<lparr>mmap_base := 0, mmap_fd := -1, in_use_mutex := False\<rparr>)
      })"

definition gc_recycle :: "('k, 'v) pmap \<Rightarrow> nat \<Rightarrow> ('k, 'v) pmap option" where
  "gc_recycle s base = do { (ok, s') \<leftarrow> gc_done s base; Some s' }"

text \<open>
  \<open>setup_mmap(n_entries)\<close>. \<open>read(mmap_fd, &n_entries, 8)\<close> yields the first header word of
  the file, or fewer than 8 bytes for a file of length zero.
\<close>
definition setup_mmap :: "('k::zero, 'v::zero) pmap \<Rightarrow> nat \<Rightarrow> ('k, 'v) pmap option" where
  "setup_mmap s n_entries = do {
     assert_that (mmap_base s = 0);
     (s1, new_mmap_size, n) \<leftarrow>
       (if mmap_name s = [] then do {
          assert_that (mmap_fd s = -1);
          (if n_entries \<noteq> 0 then Some (s, calc_mmap_size (sizeof_Node s) n_entries, n_entries)
           else do {
             assert_that (mmap_size s = 0);
             Some (s, calc_mmap_size (sizeof_Node s) InitialNumElements, InitialNumElements)
           })
        } else do {
          s0 \<leftarrow> (if mmap_fd s < 0
                 then (let (fd, s') = gc_open s in do {
                         assert_that (fd \<ge> 0);
                         Some (s'\<lparr>mmap_fd := fd\<rparr>) })
                 else Some s);
          (if n_entries \<noteq> 0 then Some (s0, calc_mmap_size (sizeof_Node s0) n_entries, n_entries)
           else if mmap_size s0 = 0 then
             (case disk s0 of
                FileData d \<Rightarrow>
                  (if r_mMask d = 0
                   then Some (s0, calc_mmap_size (sizeof_Node s0) InitialNumElements,
                              InitialNumElements)
                   else do {
                     let n1 = r_mMask d + 1;
                     assert_that (n1 \<ge> InitialNumElements);
                     Some (s0, calc_mmap_size (sizeof_Node s0) n1, n1) })
              | _ \<Rightarrow> Some (s0, calc_mmap_size (sizeof_Node s0) InitialNumElements,
                           InitialNumElements))
           else do {
             assert_that (mmap_size s0 \<noteq> 0);
             Some (s0, mmap_size s0, InitialNumElements) })
        });
     assert_that (in_use_mutex s1);
     let ((base, sz, r), s2) = gc_mmap s1 new_mmap_size;
     let s3 = s2\<lparr>mmap_size := sz, mmap_base := base, mem := r\<rparr>;
     (if r_mNumElements (mem s3) \<noteq> 0 then do {
        assert_that (r_mMaxNumElementsAllowed (mem s3) \<le> r_mMask (mem s3));
        assert_that (calc_mmap_size (sizeof_Node s3) (r_mMask (mem s3) + 1) \<le> mmap_size s3);
        Some s3
      } else do {
        assert_that (r_mMaxNumElementsAllowed (mem s3) \<le> n);
        Some (s3\<lparr>mem := (mem s3)\<lparr>
                r_mMaxNumElementsAllowed := calcMaxNumElementsAllowed (LoadFactor100 s3) n,
                r_mMask := n - 1,
                r_mInfo := (r_mInfo (mem s3))(n := 1),
                r_mInfoInc := InitialInfoInc,
                r_mInfoHashShift := InitialInfoHashShift\<rparr>\<rparr>)
      })
   }"

definition reload :: "('k::zero, 'v::zero) pmap \<Rightarrow> ('k, 'v) pmap option" where
  "reload s = do {
     assert_that (in_use_mutex s);
     (if mmap_base s = 0 then do {
        assert_that (mmap_fd s < 0);
        s' \<leftarrow> setup_mmap s 0;
        assert_that (mmap_base s' \<noteq> 0);
        Some s'
      } else Some s)
   }"

subsection \<open>Probing\<close>

text \<open>
  \<open>keyToIdx\<close>: the hash is truncated to the 32-bit \<open>int idx\<close>; \<open>idx >> *mInfoHashShift\<close> is
  the arithmetic shift of that signed value; \<open>idx &= *mMask\<close> is computed in 64 bits on the
  sign-extended value.
\<close>
definition keyToIdx :: "('k::zero, 'v::zero) pmap \<Rightarrow> 'k \<Rightarrow> (nat \<times> int \<times> ('k, 'v) pmap) option" where
  "keyToIdx s key = do {
     s' \<leftarrow> reload s;
     let h = hash_fn s' key * bad_hash_prevention (hash_is_default s');
         i = (ucast h :: 32 word);
         info = mInfoInc s' + sint i div 2 ^ nat (mInfoHashShift s');
         idx = unat ((scast i :: u64) AND word_of_nat (mMask s'))
     in Some (idx, info, s')
   }"

definition next_idx :: "nat \<Rightarrow> nat \<Rightarrow> nat" where
  "next_idx msk idx = (idx + 1) AND msk"

definition next_info :: "int \<Rightarrow> int \<Rightarrow> int" where
  "next_info inc info = info + inc"

text \<open>\<open>unsigned int prev_idx = (idx - 1) & *mMask\<close>, as \<open>shiftUp\<close> computes it.\<close>
definition prev_idx :: "nat \<Rightarrow> nat \<Rightarrow> nat" where
  "prev_idx msk idx = ((if idx = 0 then u64_max else idx - 1) AND msk) mod 2 ^ 32"

partial_function (option) nextWhileLess ::
  "(nat \<Rightarrow> u8) \<Rightarrow> int \<Rightarrow> nat \<Rightarrow> int \<Rightarrow> nat \<Rightarrow> (int \<times> nat) option" where
  "nextWhileLess mi inc msk info idx =
     (if info < uint (mi idx)
      then nextWhileLess mi inc msk (next_info inc info) (next_idx msk idx)
      else Some (info, idx))"

text \<open>
  \<open>shiftUp(idx, insertion_idx)\<close>: the loop over the info bytes, the nodes and
  \<open>*mMaxNumElementsAllowed\<close>.
\<close>
partial_function (option) shiftUp_loop ::
  "int \<Rightarrow> nat \<Rightarrow> nat \<Rightarrow> (nat \<Rightarrow> u8) \<Rightarrow> (nat \<Rightarrow> 'k \<times> 'v) \<Rightarrow> nat \<Rightarrow> nat
   \<Rightarrow> ((nat \<Rightarrow> u8) \<times> (nat \<Rightarrow> 'k \<times> 'v) \<times> nat) option" where
  "shiftUp_loop inc msk insertion_idx mi kv mx idx =
     (if idx \<noteq> insertion_idx
      then (let prev = prev_idx msk idx;
                kv' = kv(idx := kv prev);
                mi' = mi(idx := word_of_int (uint (mi prev) + inc));
                mx' = (if uint (mi' idx) + inc > 0xFF then 0 else mx)
            in shiftUp_loop inc msk insertion_idx mi' kv' mx' prev)
      else Some (mi, kv, mx))"

definition shiftUp :: "('k, 'v) pmap \<Rightarrow> nat \<Rightarrow> nat \<Rightarrow> ('k, 'v) pmap option" where
  "shiftUp s idx insertion_idx = do {
     (mi, kv, mx) \<leftarrow> shiftUp_loop (mInfoInc s) (mMask s) insertion_idx
                       (mInfo s) (mKeyVals s) (mMaxNumElementsAllowed s) idx;
     Some (set_mMaxNumElementsAllowed mx (set_mKeyVals kv (set_mInfo mi s)))
   }"

partial_function (option) shiftDown_loop ::
  "int \<Rightarrow> (nat \<Rightarrow> u8) \<Rightarrow> (nat \<Rightarrow> 'k \<times> 'v) \<Rightarrow> nat
   \<Rightarrow> ((nat \<Rightarrow> u8) \<times> (nat \<Rightarrow> 'k \<times> 'v) \<times> nat) option" where
  "shiftDown_loop inc mi kv idx =
     (if uint (mi (idx + 1)) \<ge> 2 * inc
      then shiftDown_loop inc (mi(idx := word_of_int (uint (mi (idx + 1)) - inc)))
             (kv(idx := kv (idx + 1))) (idx + 1)
      else Some (mi, kv, idx))"

definition shiftDown :: "('k, 'v) pmap \<Rightarrow> nat \<Rightarrow> ('k, 'v) pmap option" where
  "shiftDown s idx = do {
     (mi, kv, idx') \<leftarrow> shiftDown_loop (mInfoInc s) (mInfo s) (mKeyVals s) idx;
     Some (set_mKeyVals kv (set_mInfo (mi(idx' := 0)) s))
   }"

text \<open>
  The loop of \<open>findIdx\<close>, unrolled twice as in the source; the result is the index, or
  \<open>-1\<close>.
\<close>
partial_function (option) findIdx_loop ::
  "(nat \<Rightarrow> u8) \<Rightarrow> (nat \<Rightarrow> 'k \<times> 'v) \<Rightarrow> int \<Rightarrow> nat \<Rightarrow> 'k \<Rightarrow> int \<Rightarrow> nat \<Rightarrow> int option" where
  "findIdx_loop mi kv inc msk key info idx =
     (if info = uint (mi idx) \<and> key = fst (kv idx) then Some (int idx)
      else (let idx1 = next_idx msk idx; info1 = next_info inc info in
        if info1 = uint (mi idx1) \<and> key = fst (kv idx1) then Some (int idx1)
        else (let idx2 = next_idx msk idx1; info2 = next_info inc info1 in
          if info2 \<le> uint (mi idx2) then findIdx_loop mi kv inc msk key info2 idx2
          else Some (- 1))))"

definition findIdx :: "('k::zero, 'v::zero) pmap \<Rightarrow> 'k \<Rightarrow> (int \<times> ('k, 'v) pmap) option" where
  "findIdx s key = do {
     s0 \<leftarrow> reload s;
     (idx, info, s1) \<leftarrow> keyToIdx s0 key;
     r \<leftarrow> findIdx_loop (mInfo s1) (mKeyVals s1) (mInfoInc s1) (mMask s1) key info idx;
     Some (r, s1)
   }"

subsection \<open>Growth\<close>

text \<open>
  The eight info bytes \<open>data[i]\<close> of \<open>try_increase_info\<close> as one little-endian 64-bit word,
  and the store of such a word.
\<close>
definition load64 :: "(nat \<Rightarrow> u8) \<Rightarrow> nat \<Rightarrow> u64" where
  "load64 mi i =
     ucast (mi (8 * i)) OR push_bit 8 (ucast (mi (8 * i + 1)))
     OR push_bit 16 (ucast (mi (8 * i + 2))) OR push_bit 24 (ucast (mi (8 * i + 3)))
     OR push_bit 32 (ucast (mi (8 * i + 4))) OR push_bit 40 (ucast (mi (8 * i + 5)))
     OR push_bit 48 (ucast (mi (8 * i + 6))) OR push_bit 56 (ucast (mi (8 * i + 7)))"

definition store64 :: "(nat \<Rightarrow> u8) \<Rightarrow> nat \<Rightarrow> u64 \<Rightarrow> (nat \<Rightarrow> u8)" where
  "store64 mi i w = (\<lambda>j. if j div 8 = i then ucast (drop_bit (8 * (j mod 8)) w) else mi j)"

primrec shift_info_loop :: "nat list \<Rightarrow> (nat \<Rightarrow> u8) \<Rightarrow> (nat \<Rightarrow> u8)" where
  "shift_info_loop [] mi = mi"
| "shift_info_loop (i # is) mi =
     shift_info_loop is (store64 mi i (drop_bit 1 (load64 mi i) AND 0x7f7f7f7f7f7f7f7f))"

definition try_increase_info :: "('k, 'v) pmap \<Rightarrow> bool \<times> ('k, 'v) pmap" where
  "try_increase_info s =
     (if mInfoInc s \<le> 2 then (False, s)
      else (let s1 = s\<lparr>mem := (mem s)\<lparr>r_mInfoInc := (mInfoInc s div 2) mod 256\<rparr>\<rparr>;
                s2 = s1\<lparr>mem := (mem s1)\<lparr>r_mInfoHashShift := mInfoHashShift s1 + 1\<rparr>\<rparr>;
                numEntries = (mMask s2 + 1) div 8;
                s3 = set_mInfo (shift_info_loop [0..<numEntries] (mInfo s2)) s2
            in (True, set_mMaxNumElementsAllowed
                        (calcMaxNumElementsAllowed (LoadFactor100 s3) (mMask s3 + 1)) s3)))"

partial_function (option) skip_leq_loop ::
  "(nat \<Rightarrow> u8) \<Rightarrow> int \<Rightarrow> nat \<Rightarrow> int \<Rightarrow> nat \<Rightarrow> (int \<times> nat) option" where
  "skip_leq_loop mi inc msk info idx =
     (if info \<le> uint (mi idx)
      then skip_leq_loop mi inc msk (next_info inc info) (next_idx msk idx)
      else Some (info, idx))"

partial_function (option) find_empty_loop ::
  "(nat \<Rightarrow> u8) \<Rightarrow> int \<Rightarrow> nat \<Rightarrow> int \<Rightarrow> nat \<Rightarrow> (int \<times> nat) option" where
  "find_empty_loop mi inc msk info idx =
     (if 0 \<noteq> mi idx
      then find_empty_loop mi inc msk (next_info inc info) (next_idx msk idx)
      else Some (info, idx))"

text \<open>\<open>insert_move\<close>: the insertion of a node known to be new, used by \<open>rehash\<close>.\<close>
definition insert_move :: "('k::zero, 'v::zero) pmap \<Rightarrow> 'k \<times> 'v \<Rightarrow> (nat \<times> ('k, 'v) pmap) option" where
  "insert_move s keyval = do {
     s0 \<leftarrow> (if mMaxNumElementsAllowed s = 0
            then (let (ok, s') = try_increase_info s in do { assert_that ok; Some s' })
            else Some s);
     (idx0, info0, s1) \<leftarrow> keyToIdx s0 (fst keyval);
     (info1, idx1) \<leftarrow> skip_leq_loop (mInfo s1) (mInfoInc s1) (mMask s1) info0 idx0;
     let insertion_idx = idx1;
     let insertion_info = (word_of_int info1 :: u8);
     let s2 = (if uint insertion_info + mInfoInc s1 > 0xFF
               then set_mMaxNumElementsAllowed 0 s1 else s1);
     (info2, idx2) \<leftarrow> find_empty_loop (mInfo s2) (mInfoInc s2) (mMask s2) info1 idx1;
     s3 \<leftarrow> (if idx2 = insertion_idx
            then Some (set_mKeyVals ((mKeyVals s2)(insertion_idx := keyval)) s2)
            else do {
              s' \<leftarrow> shiftUp s2 idx2 insertion_idx;
              Some (set_mKeyVals ((mKeyVals s')(insertion_idx := keyval)) s') });
     let s4 = set_mInfo ((mInfo s3)(insertion_idx := insertion_info)) s3;
     Some (insertion_idx, set_mNumElements ((mNumElements s4 + 1) mod 2 ^ 64) s4)
   }"

primrec rehash_loop ::
  "(nat \<Rightarrow> u8) \<Rightarrow> (nat \<Rightarrow> 'k \<times> 'v) \<Rightarrow> nat list \<Rightarrow> ('k::zero, 'v::zero) pmap \<Rightarrow> ('k, 'v) pmap option" where
  "rehash_loop oldInfo oldKeyVals [] s = Some s"
| "rehash_loop oldInfo oldKeyVals (i # is) s =
     (if oldInfo i \<noteq> 0
      then do { (idx, s') \<leftarrow> insert_move s (oldKeyVals i); rehash_loop oldInfo oldKeyVals is s' }
      else rehash_loop oldInfo oldKeyVals is s)"

definition rehash :: "('k::zero, 'v::zero) pmap \<Rightarrow> nat \<Rightarrow> ('k, 'v) pmap option" where
  "rehash s numBuckets = do {
     assert_that (in_use_mutex s);
     assert_that (numBuckets AND (if numBuckets = 0 then u64_max else numBuckets - 1) = 0);
     s1 \<leftarrow> reload s;
     let oldMaxElements = mMask s1 + 1;
     (if oldMaxElements \<ge> numBuckets then Some s1
      else do {
        let s2 = (if mmap_fd s1 \<ge> 0 then (gc_delete_file s1)\<lparr>mmap_fd := -1\<rparr> else s1);
        let old_mmap_base = mmap_base s2;
        let oldKeyVals = mKeyVals s2;
        let oldInfo = mInfo s2;
        assert_that (mmap_fd s2 = -1);
        let s3 = s2\<lparr>mmap_base := 0, local_mMask := 0, local_mNumElements := 0,
                    local_mMaxNumElementsAllowed := 0\<rparr>;
        s4 \<leftarrow> setup_mmap s3 numBuckets;
        assert_that (old_mmap_base \<noteq> mmap_base s4);
        assert_that (mNumElements s4 = 0);
        assert_that (mMask s4 = numBuckets - 1);
        assert_that (mMaxNumElementsAllowed s4
                       = calcMaxNumElementsAllowed (LoadFactor100 s4) numBuckets);
        s5 \<leftarrow> rehash_loop oldInfo oldKeyVals [0..<oldMaxElements] s4;
        gc_recycle s5 old_mmap_base
      })
   }"

definition increase_size :: "('k::zero, 'v::zero) pmap \<Rightarrow> ('k, 'v) pmap option" where
  "increase_size s =
     (if mMask s = 0 then reload s
      else (let maxNumElementsAllowed = calcMaxNumElementsAllowed (LoadFactor100 s) (mMask s + 1);
                (ok, s1) = (if mNumElements s < maxNumElementsAllowed then try_increase_info s
                            else (False, s))
            in if ok then Some s1
               else do {
                 assert_that (mNumElements s1 * 2
                                \<ge> calcMaxNumElementsAllowed (LoadFactor100 s1) (mMask s1 + 1));
                 rehash s1 (((mMask s1 + 1) * 2) mod 2 ^ 64)
               }))"

subsection \<open>The public operations\<close>

text \<open>The inner \<open>while (info == mInfo[idx])\<close> of \<open>doCreate\<close>; the flag is \<open>found\<close>.\<close>
partial_function (option) match_loop ::
  "(nat \<Rightarrow> u8) \<Rightarrow> (nat \<Rightarrow> 'k \<times> 'v) \<Rightarrow> int \<Rightarrow> nat \<Rightarrow> 'k \<Rightarrow> int \<Rightarrow> nat
   \<Rightarrow> (bool \<times> int \<times> nat) option" where
  "match_loop mi kv inc msk key info idx =
     (if info = uint (mi idx)
      then (if key = fst (kv idx) then Some (True, info, idx)
            else match_loop mi kv inc msk key (next_info inc info) (next_idx msk idx))
      else Some (False, info, idx))"

text \<open>The \<open>while (true)\<close> of \<open>doCreate\<close>, one round per call.\<close>
partial_function (option) doCreate_loop ::
  "('k::zero, 'v::zero) pmap \<Rightarrow> 'k \<Rightarrow> 'v \<Rightarrow> (nat \<times> ('k, 'v) pmap) option" where
  "doCreate_loop s key val = do {
     (idx0, info0, s1) \<leftarrow> keyToIdx s key;
     (info1, idx1) \<leftarrow> nextWhileLess (mInfo s1) (mInfoInc s1) (mMask s1) info0 idx0;
     (found, info2, idx2) \<leftarrow>
        match_loop (mInfo s1) (mKeyVals s1) (mInfoInc s1) (mMask s1) key info1 idx1;
     let insertion_idx = idx2;
     let insertion_info = info2;
     (if \<not> found \<and> mNumElements s1 \<ge> mMaxNumElementsAllowed s1
      then do { s2 \<leftarrow> increase_size s1; doCreate_loop s2 key val }
      else do {
        (s3, idx3) \<leftarrow>
          (if \<not> found then do {
             let s2 = (if insertion_info + mInfoInc s1 > 0xFF
                       then set_mMaxNumElementsAllowed 0 s1 else s1);
             (info3, idx3) \<leftarrow> find_empty_loop (mInfo s2) (mInfoInc s2) (mMask s2) info2 idx2;
             Some (s2, idx3)
           } else Some (s1, idx2));
        s4 \<leftarrow>
          (if idx3 = insertion_idx
           then Some (set_mKeyVals ((mKeyVals s3)(insertion_idx := (key, val))) s3)
           else do {
             assert_that (\<not> found);
             s' \<leftarrow> shiftUp s3 idx3 insertion_idx;
             Some (set_mKeyVals ((mKeyVals s')(insertion_idx := (key, val))) s') });
        let s5 = (if \<not> found
                  then (let s' = set_mInfo ((mInfo s4)(insertion_idx := word_of_int insertion_info)) s4
                        in set_mNumElements ((mNumElements s' + 1) mod 2 ^ 64) s')
                  else s4);
        Some (insertion_idx, lock_exit s5)
      })
   }"

definition doCreate :: "('k::zero, 'v::zero) pmap \<Rightarrow> 'k \<Rightarrow> 'v \<Rightarrow> (nat \<times> ('k, 'v) pmap) option" where
  "doCreate s key val = do {
     s0 \<leftarrow> lock_enter s;
     s1 \<leftarrow> reload s0;
     doCreate_loop s1 key val
   }"

definition map_set :: "('k::zero, 'v::zero) pmap \<Rightarrow> 'k \<Rightarrow> 'v \<Rightarrow> (nat \<times> ('k, 'v) pmap) option" where
  "map_set s key val = doCreate s key val"

definition has :: "('k::zero, 'v::zero) pmap \<Rightarrow> 'k \<Rightarrow> (bool \<times> ('k, 'v) pmap) option" where
  "has s key = do {
     s0 \<leftarrow> lock_enter s;
     (idx, s1) \<leftarrow> findIdx s0 key;
     Some (idx \<ge> 0, lock_exit s1)
   }"

definition find_key :: "('k::zero, 'v::zero) pmap \<Rightarrow> 'k \<Rightarrow> (int \<times> ('k, 'v) pmap) option" where
  "find_key s key = do {
     s0 \<leftarrow> lock_enter s;
     (idx, s1) \<leftarrow> findIdx s0 key;
     Some (idx, lock_exit s1)
   }"

definition get :: "('k::zero, 'v::zero) pmap \<Rightarrow> 'k \<Rightarrow> ('v \<times> ('k, 'v) pmap) option" where
  "get s key = do {
     s0 \<leftarrow> lock_enter s;
     (idx, s1) \<leftarrow> findIdx s0 key;
     assert_that (idx \<ge> 0);
     let ret = snd (mKeyVals s1 (nat idx));
     Some (ret, lock_exit s1)
   }"

text \<open>
  Iterators: the node pointer and the info pointer as offsets into the two arrays
  (\<open>None\<close> is \<open>nullptr\<close>), and whether \<open>map_ptr\<close> is this map or \<open>nullptr\<close>.
\<close>
record iter =
  it_mKeyVals :: "nat option"
  it_mInfo :: "nat option"
  it_map_ptr :: bool

definition Iter_default :: iter where
  "Iter_default = \<lparr>it_mKeyVals = None, it_mInfo = None, it_map_ptr = False\<rparr>"

definition Iter_copy :: "('k, 'v) pmap \<Rightarrow> iter \<Rightarrow> (iter \<times> ('k, 'v) pmap) option" where
  "Iter_copy s it = do {
     let new = \<lparr>it_mKeyVals = it_mKeyVals it, it_mInfo = it_mInfo it, it_map_ptr = it_map_ptr it\<rparr>;
     s' \<leftarrow> (if it_map_ptr new then ref_lock s else Some s);
     Some (new, s')
   }"

definition Iter_destroy :: "('k, 'v) pmap \<Rightarrow> iter \<Rightarrow> ('k, 'v) pmap option" where
  "Iter_destroy s it = (if it_map_ptr it then ref_unlock s else Some s)"

text \<open>\<open>Iter::operator=\<close>: the assigned-to iterator and the map afterwards.\<close>
definition Iter_assign :: "('k, 'v) pmap \<Rightarrow> iter \<Rightarrow> iter \<Rightarrow> (iter \<times> ('k, 'v) pmap) option" where
  "Iter_assign s this other = do {
     let this1 = this\<lparr>it_mKeyVals := it_mKeyVals other\<rparr>;
     let this2 = this1\<lparr>it_mInfo := it_mInfo other\<rparr>;
     let this3 = this2\<lparr>it_map_ptr := it_map_ptr other\<rparr>;
     s' \<leftarrow> (if it_map_ptr this3 then ref_lock s else Some s);
     Some (this3, s')
   }"

definition find_map :: "('k::zero, 'v::zero) pmap \<Rightarrow> 'k \<Rightarrow> (iter \<times> ('k, 'v) pmap) option" where
  "find_map s key = do {
     s0 \<leftarrow> ref_lock s;
     assert_that (ref_locked s0 \<noteq> 0);
     (idx, s1) \<leftarrow> findIdx s0 key;
     (if idx < 0
      then Some (\<lparr>it_mKeyVals = Some (mMask s1 + 1), it_mInfo = None, it_map_ptr = True\<rparr>, s1)
      else Some (\<lparr>it_mKeyVals = Some (nat idx), it_mInfo = Some (nat idx), it_map_ptr = True\<rparr>, s1))
   }"

definition cend :: "('k::zero, 'v::zero) pmap \<Rightarrow> (iter \<times> ('k, 'v) pmap) option" where
  "cend s = do {
     s0 \<leftarrow> ref_lock s;
     s1 \<leftarrow> reload s0;
     Some (\<lparr>it_mKeyVals = Some (mMask s1 + 1), it_mInfo = None, it_map_ptr = True\<rparr>, s1)
   }"

text \<open>The \<open>do ... while (info <= mInfo[idx])\<close> of \<open>erase(key)\<close>: the slot of the key, if any.\<close>
partial_function (option) erase_loop ::
  "(nat \<Rightarrow> u8) \<Rightarrow> (nat \<Rightarrow> 'k \<times> 'v) \<Rightarrow> int \<Rightarrow> nat \<Rightarrow> 'k \<Rightarrow> int \<Rightarrow> nat \<Rightarrow> nat option option" where
  "erase_loop mi kv inc msk key info idx =
     (if info = uint (mi idx) \<and> key = fst (kv idx) then Some (Some idx)
      else (let idx1 = next_idx msk idx; info1 = next_info inc info in
        if info1 \<le> uint (mi idx1) then erase_loop mi kv inc msk key info1 idx1
        else Some None))"

definition erase :: "('k::zero, 'v::zero) pmap \<Rightarrow> 'k \<Rightarrow> (nat \<times> ('k, 'v) pmap) option" where
  "erase s key = do {
     s0 \<leftarrow> lock_enter s;
     (idx, info, s1) \<leftarrow> keyToIdx s0 key;
     r \<leftarrow> erase_loop (mInfo s1) (mKeyVals s1) (mInfoInc s1) (mMask s1) key info idx;
     (case r of
        Some i \<Rightarrow> do {
          s2 \<leftarrow> shiftDown s1 i;
          let s3 = set_mNumElements
                     (if mNumElements s2 = 0 then u64_max else mNumElements s2 - 1) s2;
          Some (1, lock_exit s3) }
      | None \<Rightarrow> Some (0, lock_exit s1))
   }"

partial_function (option) reserve_loop :: "nat \<Rightarrow> nat \<Rightarrow> nat \<Rightarrow> nat option" where
  "reserve_loop lf cnt newSize =
     (if calcMaxNumElementsAllowed lf newSize < cnt \<and> newSize \<noteq> 0
      then reserve_loop lf cnt ((newSize * 2) mod 2 ^ 64)
      else Some newSize)"

definition reserve :: "('k::zero, 'v::zero) pmap \<Rightarrow> nat \<Rightarrow> ('k, 'v) pmap option" where
  "reserve s cnt = do {
     s0 \<leftarrow> lock_enter s;
     newSize \<leftarrow> reserve_loop (LoadFactor100 s0) cnt
                  (if InitialNumElements > (mMask s0 + 1) mod 2 ^ 64 then InitialNumElements
                   else (mMask s0 + 1) mod 2 ^ 64);
     assert_that (newSize \<noteq> 0);
     s1 \<leftarrow> rehash s0 newSize;
     Some (lock_exit s1)
   }"

definition clear :: "('k, 'v) pmap \<Rightarrow> ('k, 'v) pmap option" where
  "clear s = do {
     assert_that (ref_locked s = 0);
     s1 \<leftarrow> (if mmap_base s \<noteq> 0 then do {
              s' \<leftarrow> gc_recycle s (mmap_base s);
              assert_that (in_use_mutex s' \<or> mmap_base s' = 0);
              Some s' }
            else Some s);
     s2 \<leftarrow> spin_lock s1;
     let s3 = (if mmap_name s2 \<noteq> [] then unlink s2 else s2);
     let s4 = s3\<lparr>local_mNumElements := 0, local_mMask := 0, local_mMaxNumElementsAllowed := 0\<rparr>;
     assert_that (mNumElements s4 = 0);
     Some (s4\<lparr>in_use_mutex := False\<rparr>)
   }"

subsection \<open>Invariants\<close>

text \<open>The slot \<open>t\<close> steps after slot \<open>a\<close>, around the end of the table.\<close>
definition pos :: "nat \<Rightarrow> nat \<Rightarrow> nat \<Rightarrow> nat" where
  "pos msk a t = (a + t) mod (msk + 1)"

text \<open>
  The key lies \<open>j\<close> steps after its home slot \<open>idx\<close>, behind \<open>a\<close> entries with a larger info
  byte and \<open>j - a\<close> entries with the same info byte and another key: the place where
  \<open>doCreate\<close> looks for it and where \<open>findIdx\<close> finds it.
\<close>
definition stored_at ::
  "(nat \<Rightarrow> u8) \<Rightarrow> (nat \<Rightarrow> 'k \<times> 'v) \<Rightarrow> int \<Rightarrow> nat \<Rightarrow> 'k \<Rightarrow> int \<Rightarrow> nat \<Rightarrow> nat \<Rightarrow> nat \<Rightarrow> bool" where
  "stored_at mi kv inc msk key info idx a j \<longleftrightarrow>
     a \<le> j
     \<and> (\<forall>t < a. info + int t * inc < uint (mi (pos msk idx t)))
     \<and> (\<forall>t. a \<le> t \<and> t < j \<longrightarrow>
            info + int t * inc = uint (mi (pos msk idx t)) \<and> key \<noteq> fst (kv (pos msk idx t)))
     \<and> info + int j * inc = uint (mi (pos msk idx j))
     \<and> key = fst (kv (pos msk idx j))"

text \<open>The home slot and the initial info value of a key, as \<open>keyToIdx\<close> computes them.\<close>
definition key_idx :: "('k, 'v) pmap \<Rightarrow> 'k \<Rightarrow> nat" where
  "key_idx s key =
     unat ((scast (ucast (hash_fn s key * bad_hash_prevention (hash_is_default s)) :: 32 word) :: u64)
           AND word_of_nat (mMask s))"

definition key_info :: "('k, 'v) pmap \<Rightarrow> 'k \<Rightarrow> int" where
  "key_info s key =
     mInfoInc s
     + sint (ucast (hash_fn s key * bad_hash_prevention (hash_is_default s)) :: 32 word)
       div 2 ^ nat (mInfoHashShift s)"

text \<open>Slot \<open>i\<close> holds the key with the value, at the place where the probes look for it.\<close>
definition entry_at :: "('k, 'v) pmap \<Rightarrow> 'k \<Rightarrow> 'v \<Rightarrow> nat \<Rightarrow> bool" where
  "entry_at s key val i \<longleftrightarrow>
     (\<exists>a j. stored_at (mInfo s) (mKeyVals s) (mInfoInc s) (mMask s) key
               (key_info s key) (key_idx s key) a j
            \<and> i = pos (mMask s) (key_idx s key) j
            \<and> snd (mKeyVals s i) = val)"

text \<open>The fields that only mapping, locking and reclamation change.\<close>
definition same_env :: "('k, 'v) pmap \<Rightarrow> ('k, 'v) pmap \<Rightarrow> bool" where
  "same_env s s' \<longleftrightarrow>
     hash_fn s' = hash_fn s \<and> hash_is_default s' = hash_is_default s
     \<and> LoadFactor100 s' = LoadFactor100 s \<and> sizeof_Node s' = sizeof_Node s
     \<and> mmap_name s' = mmap_name s \<and> mmap_fd s' = mmap_fd s \<and> mmap_size s' = mmap_size s
     \<and> mmap_base s' = mmap_base s \<and> in_use_mutex s' = in_use_mutex s
     \<and> ref_locked s' = ref_locked s \<and> disk s' = disk s \<and> gc_last_base s' = gc_last_base s
     \<and> r_mMask (mem s') = r_mMask (mem s)"

text \<open>The number of slots \<open>0..mask\<close> with a non-zero info byte.\<close>
definition occupied :: "(nat \<Rightarrow> u8) \<Rightarrow> nat \<Rightarrow> nat" where
  "occupied mi msk = card {i. i \<le> msk \<and> mi i \<noteq> 0}"

text \<open>The pairs \<open>(infoInc, infoHashShift)\<close> that the initial pair and its halvings give.\<close>
definition hdr_sane :: "int \<Rightarrow> int \<Rightarrow> bool" where
  "hdr_sane inc sh \<longleftrightarrow>
     (inc = 32 \<and> sh = 27) \<or> (inc = 16 \<and> sh = 28) \<or> (inc = 8 \<and> sh = 29)
     \<or> (inc = 4 \<and> sh = 30) \<or> (inc = 2 \<and> sh = 31)"

text \<open>
  A well-formed mapped region, for the load factor \<open>lf\<close>: a sane header; a slot count that
  is a power of two from \<open>2 ^ 10\<close> to \<open>2 ^ 31\<close> (the range of \<open>int idx\<close>); unless
  \<open>maxNumElementsAllowed\<close> has been zeroed, no info byte is within \<open>infoInc\<close> of overflow;
  the occupied slots are counted by \<open>numElements\<close>, which the load factor bounds;
  \<open>maxNumElementsAllowed\<close> is zero or what the load factor says; the sentinel is in place.
\<close>
definition wf_region :: "nat \<Rightarrow> ('k, 'v) region \<Rightarrow> bool" where
  "wf_region lf r \<longleftrightarrow>
     hdr_sane (r_mInfoInc r) (r_mInfoHashShift r)
     \<and> (\<exists>n. 10 \<le> n \<and> n \<le> 31 \<and> r_mMask r + 1 = 2 ^ n)
     \<and> (r_mMaxNumElementsAllowed r \<noteq> 0 \<longrightarrow>
          (\<forall>i \<le> r_mMask r. uint (r_mInfo r i) + r_mInfoInc r \<le> 255))
     \<and> occupied (r_mInfo r) (r_mMask r) \<le> r_mNumElements r
     \<and> r_mNumElements r \<le> calcMaxNumElementsAllowed lf (r_mMask r + 1)
     \<and> (r_mMaxNumElementsAllowed r = 0
          \<or> r_mMaxNumElementsAllowed r = calcMaxNumElementsAllowed lf (r_mMask r + 1))
     \<and> r_mInfo r (r_mMask r + 1) = 1"

text \<open>
  A map with a mapping: the region is well-formed, the load factor is in its static range,
  a named map has its file descriptor open and an anonymous one has neither descriptor
  nor file.
\<close>
definition wf_mem :: "('k, 'v) pmap \<Rightarrow> bool" where
  "wf_mem s \<longleftrightarrow>
     mmap_base s \<noteq> 0
     \<and> wf_region (LoadFactor100 s) (mem s)
     \<and> 10 < LoadFactor100 s \<and> LoadFactor100 s < 100
     \<and> (if mmap_name s = [] then mmap_fd s = -1 \<and> disk s = NoFile else 0 \<le> mmap_fd s)"

text \<open>A map without a mapping, as the constructor and \<open>clear\<close> leave it.\<close>
definition unmapped_ok :: "('k, 'v) pmap \<Rightarrow> bool" where
  "unmapped_ok s \<longleftrightarrow>
     mmap_base s = 0 \<and> mmap_fd s = -1 \<and> disk s = NoFile
     \<and> (mmap_name s = [] \<longrightarrow> mmap_size s = 0)
     \<and> local_mMask s = 0 \<and> local_mNumElements s = 0 \<and> local_mMaxNumElementsAllowed s = 0
     \<and> 10 < LoadFactor100 s \<and> LoadFactor100 s < 100"

text \<open>Between two operations: the mutex is held exactly while a read-lock is.\<close>
definition locks_ok :: "('k, 'v) pmap \<Rightarrow> bool" where
  "locks_ok s \<longleftrightarrow> 0 \<le> ref_locked s \<and> (in_use_mutex s \<longleftrightarrow> ref_locked s \<noteq> 0)"

definition inv :: "('k, 'v) pmap \<Rightarrow> bool" where
  "inv s \<longleftrightarrow> locks_ok s \<and> (if mmap_base s = 0 then unmapped_ok s else wf_mem s)"

text \<open>
  The header property of claim C2, with the exception the code makes:
  \<open>maxNumElementsAllowed\<close> is zeroed to force a resize.
\<close>
definition header_ok :: "('k, 'v) pmap \<Rightarrow> bool" where
  "header_ok s \<longleftrightarrow>
     (mMaxNumElementsAllowed s = 0 \<or> mNumElements s \<le> mMaxNumElementsAllowed s)
     \<and> mMaxNumElementsAllowed s \<le> mMask s + 1
     \<and> (mmap_base s = 0 \<or> mInfo s (mMask s + 1) = 1)"

subsection \<open>Observers and examples used in the statements\<close>

text \<open>The destructors of a list of live iterators, run in order.\<close>
primrec destroy_all :: "('k, 'v) pmap \<Rightarrow> iter list \<Rightarrow> ('k, 'v) pmap option" where
  "destroy_all s [] = Some s"
| "destroy_all s (it # its) = Iter_destroy s it \<bind> (\<lambda>s'. destroy_all s' its)"

text \<open>The number of read-locks a list of live iterators accounts for.\<close>
definition held :: "iter list \<Rightarrow> int" where
  "held its = int (length (filter it_map_ptr its))"

text \<open>The result and the final state of a call.\<close>
definition result_of :: "('a \<times> 's) option \<Rightarrow> 'a option" where
  "result_of r = map_option fst r"

definition state_of :: "('a \<times> 's) option \<Rightarrow> 's option" where
  "state_of r = map_option snd r"

text \<open>
  A map \<open>mmap_lib::map<uint32_t, uint32_t>\<close> with the default hasher and load factor, on
  the file \<open>lgdb/pmap\<close>; the same map while one iterator \<open>ex_iter\<close> is alive.
\<close>
definition ex_map :: "(32 word, 32 word) pmap" where
  "ex_map = new_map hash_u32 True 80 8 ''lgdb/pmap''"

definition ex_locked :: "(32 word, 32 word) pmap" where
  "ex_locked = ex_map\<lparr>in_use_mutex := True, ref_locked := 1\<rparr>"

definition ex_iter :: iter where
  "ex_iter = \<lparr>it_mKeyVals = Some 1, it_mInfo = None, it_map_ptr = True\<rparr>"

definition ex_held :: "(32 word, 32 word) pmap" where
  "ex_held = ex_map\<lparr>in_use_mutex := True\<rparr>"

definition file_exists :: "('k, 'v) pmap \<Rightarrow> bool" where
  "file_exists s = (disk s \<noteq> NoFile)"

text \<open>Sequences of public operations, run from left to right.\<close>
datatype ('k, 'v) op = Set 'k 'v | Erase 'k | Reserve nat | Clear

fun apply_op :: "('k::zero, 'v::zero) pmap \<Rightarrow> ('k, 'v) op \<Rightarrow> ('k, 'v) pmap option" where
  "apply_op s (Set k v) = state_of (map_set s k v)"
| "apply_op s (Erase k) = state_of (erase s k)"
| "apply_op s (Reserve n) = reserve s n"
| "apply_op s Clear = clear s"

fun run :: "('k::zero, 'v::zero) pmap \<Rightarrow> ('k, 'v) op list \<Rightarrow> ('k, 'v) pmap option" where
  "run s [] = Some s"
| "run s (x # xs) = apply_op s x \<bind> (\<lambda>s'. run s' xs)"

text \<open>The example map after \<open>set(5, 7)\<close> and \<open>erase(5)\<close>: mapped, and empty again.\<close>
definition ex_emptied :: "(32 word, 32 word) pmap" where
  "ex_emptied = the (run ex_map [Set 5 7, Erase 5])"



text \<open>
  The keys 725 and 2071 both hash to the last slot, 1023, of a table of 1024 slots. The
  example map after \<open>set(725, 1); set(2071, 2); erase(725); set(2071, 3)\<close>.
\<close>
definition ex_dup :: "(32 word, 32 word) pmap" where
  "ex_dup = the (run ex_map [Set 725 1, Set 2071 2, Erase 725, Set 2071 3])"



text \<open>The states after each operation of a sequence.\<close>
fun run_states :: "('k::zero, 'v::zero) pmap \<Rightarrow> ('k, 'v) op list \<Rightarrow> ('k, 'v) pmap list option" where
  "run_states s [] = Some []"
| "run_states s (x # xs) =
     apply_op s x \<bind> (\<lambda>s'. run_states s' xs \<bind> (\<lambda>tr. Some (s' # tr)))"


section \<open>Properties\<close>

subsection \<open>Unfolding and evaluation\<close>

lemmas hdr_defs = mMask_def mNumElements_def mMaxNumElementsAllowed_def mInfoInc_def
  mInfoHashShift_def mInfo_def mKeyVals_def set_mNumElements_def set_mMaxNumElementsAllowed_def
  set_mInfo_def set_mKeyVals_def

lemmas const_defs = InitialNumElements_def InitialInfoNumBits_def sizeof_int_def
  InitialInfoInc_def InitialInfoHashShift_def u64_max_def calc_mmap_size_def
  calcNumBytesTotal_def calcNumBytesInfo_def calcNumBytesNode_def

lemmas gc_defs = gc_open_def gc_mmap_def gc_delete_file_def unlink_def gc_recycle_def gc_done_def

lemmas lock_defs = spin_lock_def lock_enter_def lock_exit_def ref_lock_def ref_unlock_def

text \<open>
  Congruence rules that keep the simplifier from rewriting the continuation of a bind, or
  the branches of a case, before the scrutinee is a value: with them the equations of the
  loops evaluate a call on concrete arguments.
\<close>
lemma bind_weak_cong: "m = m' \<Longrightarrow> Option.bind m f = Option.bind m' f"
  by simp

lemma case_option_weak_cong: "x = y \<Longrightarrow> case_option a b x = case_option a b y"
  by simp

lemma case_prod_weak_cong: "p = q \<Longrightarrow> case_prod f p = case_prod f q"
  by simp

lemma Suc_Suc_0: "Suc (Suc 0) = 2"
  by simp

lemmas eval_defs = Suc_Suc_0 new_map_def zero_region_def map_set_def doCreate_def reload_def
  setup_mmap_def assert_that_def keyToIdx_def calcMaxNumElementsAllowed_def hash_u32_def
  bad_hash_prevention_def next_idx_def next_info_def prev_idx_def shiftUp_def shiftDown_def
  findIdx_def get_def has_def find_key_def erase_def find_map_def increase_size_def
  state_of_def result_of_def size_map_def empty_map_def file_exists_def
  nextWhileLess.simps match_loop.simps find_empty_loop.simps shiftUp_loop.simps
  shiftDown_loop.simps findIdx_loop.simps erase_loop.simps doCreate_loop.simps
  hdr_defs const_defs gc_defs lock_defs Let_def

lemmas eval_congs = bind_weak_cong case_option_weak_cong case_prod_weak_cong if_weak_cong

subsection \<open>Words and indices\<close>


lemma nat_and_le: "(x::nat) AND m \<le> m"
  by (metis and.commute AND_upper2 nat_int_comparison(3) of_nat_and_eq of_nat_0_le_iff)



subsection \<open>Iterators and the read-lock count\<close>

lemma destroy_all_surplus:
  "in_use_mutex s \<Longrightarrow> ref_locked s = held its + c \<Longrightarrow> 0 < c \<Longrightarrow>
   \<exists>s'. destroy_all s its = Some s' \<and> ref_locked s' = c \<and> in_use_mutex s'"
proof (induction its arbitrary: s)
  case Nil
  then show ?case by (simp add: held_def)
next
  case (Cons it its)
  show ?case
  proof (cases "it_map_ptr it")
    case True
    let ?s1 = "s\<lparr>ref_locked := ref_locked s - 1\<rparr>"
    have h: "held (it # its) = held its + 1" using True by (simp add: held_def)
    have d: "Iter_destroy s it = Some ?s1"
      using True Cons.prems h unfolding Iter_destroy_def ref_unlock_def assert_that_def held_def
      by (simp add: Let_def)
    have "\<exists>s'. destroy_all ?s1 its = Some s' \<and> ref_locked s' = c \<and> in_use_mutex s'"
      by (rule Cons.IH) (use Cons.prems h in simp_all)
    then show ?thesis using d by simp
  next
    case False
    have h: "held (it # its) = held its" using False by (simp add: held_def)
    have d: "Iter_destroy s it = Some s" using False by (simp add: Iter_destroy_def)
    have "\<exists>s'. destroy_all s its = Some s' \<and> ref_locked s' = c \<and> in_use_mutex s'"
      by (rule Cons.IH) (use Cons.prems h in simp_all)
    then show ?thesis using d by simp
  qed
qed

text \<open>
  C10 (as stated): after \<open>a = b\<close> over a bound iterator \<open>a\<close> the read-lock count is its
  prior value plus one, for every iterator \<open>b\<close>. With \<open>b\<close> default-constructed
  (\<open>map_ptr\<close> null) \<open>operator=\<close> takes no lock: the map is unchanged, its count stays 1.
\<close>
theorem iter_assign_unbound_counterexample:
  "it_map_ptr ex_iter \<and> ref_locked ex_locked = 1
   \<and> Iter_assign ex_locked ex_iter Iter_default = Some (Iter_default, ex_locked)
   \<and> ref_locked ex_locked \<noteq> ref_locked ex_locked + 1"
  by (simp add: Iter_assign_def Iter_default_def ex_iter_def ex_locked_def)

text \<open>
  C10 (amended): let \<open>a\<close> be bound to the map and let the read-lock count be exactly the
  number of bound live iterators \<open>a # its\<close>. After \<open>a = b\<close> the count is its prior value
  plus one when \<open>b\<close> is bound, and unchanged when \<open>b\<close> is unbound. In both cases the lock
  held through \<open>a\<close> is never released: once every live iterator is destroyed the count
  is still 1 and the mutex is still held.
\<close>
theorem iter_assign_leaks_read_lock:
  assumes "it_map_ptr a" and "in_use_mutex s" and "ref_locked s = held (a # its)"
  shows "\<exists>a' s'. Iter_assign s a b = Some (a', s')
           \<and> ref_locked s' = ref_locked s + (if it_map_ptr b then 1 else 0)
           \<and> (\<exists>s''. destroy_all s' (a' # its) = Some s'' \<and> ref_locked s'' = 1
                  \<and> in_use_mutex s'')"
proof -
  have pos: "0 < ref_locked s" using assms by (simp add: held_def)
  define a' where
    "a' = a\<lparr>it_mKeyVals := it_mKeyVals b, it_mInfo := it_mInfo b, it_map_ptr := it_map_ptr b\<rparr>"
  define s' where "s' = (if it_map_ptr b then s\<lparr>ref_locked := ref_locked s + 1\<rparr> else s)"
  have asg: "Iter_assign s a b = Some (a', s')"
    using pos unfolding Iter_assign_def ref_lock_def a'_def s'_def by (simp add: Let_def)
  have cnt: "ref_locked s' = ref_locked s + (if it_map_ptr b then 1 else 0)"
    by (simp add: s'_def)
  have mx: "in_use_mutex s'" using assms(2) by (simp add: s'_def)
  have "held (a' # its) + 1 = ref_locked s'"
    using assms(1,3) by (simp add: held_def a'_def s'_def)
  then have "ref_locked s' = held (a' # its) + 1" by simp
  from destroy_all_surplus [OF mx this]
  have "\<exists>s''. destroy_all s' (a' # its) = Some s'' \<and> ref_locked s'' = 1 \<and> in_use_mutex s''"
    by simp
  with asg cnt show ?thesis by blast
qed

theorem iter_assign_leaks_read_lock_witness:
  "it_map_ptr ex_iter \<and> in_use_mutex ex_locked \<and> ref_locked ex_locked = held [ex_iter]
   \<and> (\<exists>a' s'. Iter_assign ex_locked ex_iter ex_iter = Some (a', s')
           \<and> ref_locked s' = ref_locked ex_locked + (if it_map_ptr ex_iter then 1 else 0)
           \<and> (\<exists>s''. destroy_all s' [a'] = Some s'' \<and> ref_locked s'' = 1 \<and> in_use_mutex s''))"
proof -
  have h: "it_map_ptr ex_iter" "in_use_mutex ex_locked"
      "ref_locked ex_locked = held (ex_iter # [])"
    by (simp_all add: ex_iter_def ex_locked_def held_def)
  show ?thesis using h iter_assign_leaks_read_lock [OF h, of ex_iter] by simp
qed

subsection \<open>The header a new mapping gets\<close>

text \<open>
  C5 (as stated): a fresh header gets \<open>infoHashShift = wordBits - 5\<close>, 59 on a 64-bit build.
  \<open>setup_mmap\<close> on the example map (nothing on disk, mutex held as in every caller)
  initialises a fresh header, and the shift it writes is 27.
\<close>
theorem setup_mmap_shift_counterexample:
  "map_option mNumElements (setup_mmap ex_held 0) = Some 0
   \<and> map_option mInfoHashShift (setup_mmap ex_held 0) = Some 27
   \<and> map_option mInfoHashShift (setup_mmap ex_held 0) \<noteq> Some 59"
  by (simp add: ex_held_def ex_map_def eval_defs cong: eval_congs)

text \<open>
  C5 (amended): when \<open>setup_mmap\<close> initialises a fresh header (the mapped header records no
  elements), it writes \<open>mask = n_entries - 1\<close>, \<open>maxNumElementsAllowed\<close> per the load
  factor, \<open>infoInc = 1 << 5\<close>, \<open>infoHashShift = sizeof(int) * 8 - 5\<close>, which is 27, and the
  sentinel byte at index \<open>n_entries = mask + 1\<close>. Here \<open>n_entries\<close> is the forced size \<open>n\<close>
  when it is not zero; for \<open>setup_mmap(0)\<close>, the call of \<open>reload\<close>, it is the slot count
  recorded in the first word of the file at the first reload of a named map, and
  \<open>InitialNumElements\<close> otherwise.
\<close>
theorem setup_mmap_fresh_header:
  assumes "setup_mmap s n = Some s'" and "mNumElements s' = 0"
  shows "\<exists>n_entries.
           n_entries =
             (if n \<noteq> 0 then n
              else if mmap_name s \<noteq> [] \<and> mmap_size s = 0
                   then (case disk s of
                           FileData d \<Rightarrow> if r_mMask d = 0 then InitialNumElements else r_mMask d + 1
                         | _ \<Rightarrow> InitialNumElements)
                   else InitialNumElements)
           \<and> mmap_base s' \<noteq> 0 \<and> mMask s' = n_entries - 1
           \<and> mMaxNumElementsAllowed s' = calcMaxNumElementsAllowed (LoadFactor100 s) n_entries
           \<and> mInfoInc s' = 2 ^ 5 \<and> mInfoHashShift s' = int (sizeof_int * 8) - 5
           \<and> mInfoHashShift s' = 27 \<and> mInfo s' n_entries = 1
           \<and> mInfo s' (mMask s' + 1) = 1"
  using assms
  unfolding setup_mmap_def
  by (auto simp: assert_that_def gc_open_def gc_mmap_def hdr_defs const_defs Let_def
           split: if_splits bfile.splits prod.splits Option.bind_splits)

theorem setup_mmap_fresh_header_witness:
  "\<exists>s'. setup_mmap ex_held 0 = Some s' \<and> mNumElements s' = 0
     \<and> reload ex_held = Some s'
     \<and> mmap_base s' \<noteq> 0 \<and> mMask s' = 1023
     \<and> mMaxNumElementsAllowed s' = calcMaxNumElementsAllowed (LoadFactor100 ex_held) 1024
     \<and> mInfoInc s' = 2 ^ 5 \<and> mInfoHashShift s' = int (sizeof_int * 8) - 5
     \<and> mInfoHashShift s' = 27 \<and> mInfo s' 1024 = 1"
proof -
  obtain s' where s: "setup_mmap ex_held 0 = Some s'" and n: "mNumElements s' = 0"
    and r: "reload ex_held = Some s'"
    by (simp add: ex_held_def ex_map_def eval_defs cong: eval_congs)
  have e: "mmap_name ex_held \<noteq> []" "mmap_size ex_held = 0" "disk ex_held = NoFile"
    by (simp_all add: ex_held_def ex_map_def new_map_def)
  show ?thesis using s n r e setup_mmap_fresh_header [OF s n]
    by (simp add: InitialNumElements_def)
qed

subsection \<open>Lookup in a map that was never allocated\<close>








subsection \<open>What mapping and reloading leave alone\<close>

lemma setup_mmap_frame:
  assumes "setup_mmap s n = Some s'"
  shows "mmap_base s = 0 \<and> in_use_mutex s \<and> mmap_base s' \<noteq> 0 \<and> in_use_mutex s'
     \<and> ref_locked s' = ref_locked s \<and> hash_fn s' = hash_fn s
     \<and> hash_is_default s' = hash_is_default s \<and> LoadFactor100 s' = LoadFactor100 s
     \<and> sizeof_Node s' = sizeof_Node s \<and> mmap_name s' = mmap_name s
     \<and> (file_exists s \<longrightarrow> file_exists s')
     \<and> (mmap_name s \<noteq> [] \<longrightarrow> file_exists s' \<and> 0 \<le> mmap_fd s')"
  using assms
  unfolding setup_mmap_def file_exists_def
  by (auto simp: assert_that_def gc_open_def gc_mmap_def hdr_defs const_defs Let_def
           split: if_splits bfile.splits prod.splits Option.bind_splits)

lemma reload_frame:
  assumes "reload s = Some s'"
  shows "in_use_mutex s \<and> mmap_base s' \<noteq> 0 \<and> in_use_mutex s'
     \<and> ref_locked s' = ref_locked s \<and> hash_fn s' = hash_fn s
     \<and> hash_is_default s' = hash_is_default s \<and> LoadFactor100 s' = LoadFactor100 s
     \<and> sizeof_Node s' = sizeof_Node s \<and> mmap_name s' = mmap_name s
     \<and> (file_exists s \<longrightarrow> file_exists s') \<and> (mmap_base s \<noteq> 0 \<longrightarrow> s' = s)"
  using assms setup_mmap_frame [of s 0]
  unfolding reload_def
  by (auto simp: assert_that_def split: if_splits Option.bind_splits)

subsection \<open>When the backing file is unlinked\<close>

lemma shiftDown_disk: "shiftDown s i = Some s' \<Longrightarrow> disk s' = disk s"
  by (auto simp: shiftDown_def hdr_defs split: Option.bind_splits prod.splits)

lemma erase_keeps_file:
  assumes "erase s k = Some (r, s')" and "file_exists s"
  shows "file_exists s'"
proof -
  from assms(1) obtain s0 idx info s1 where
    l: "lock_enter s = Some s0" and k: "keyToIdx s0 k = Some (idx, info, s1)"
    by (auto simp: erase_def split: Option.bind_splits)
  from l have f0: "file_exists s0" using assms(2)
    by (auto simp: lock_defs file_exists_def split: if_splits)
  from k obtain r1: "reload s0 = Some s1"
    by (auto simp: keyToIdx_def Let_def split: Option.bind_splits)
  have f1: "file_exists s1" using reload_frame [OF r1] f0 by simp
  from assms(1) l k have "disk s' = disk s1"
    by (auto simp: erase_def hdr_defs lock_defs Let_def dest!: shiftDown_disk
             split: Option.bind_splits option.splits if_splits)
  then show ?thesis using f1 by (simp add: file_exists_def)
qed

lemma ex_emptied_eval:
  "run ex_map [Set 5 7, Erase 5] = Some ex_emptied \<and> mmap_base ex_emptied = 1
   \<and> mmap_fd ex_emptied = 3 \<and> mmap_name ex_emptied = ''lgdb/pmap''
   \<and> size_map ex_emptied = 0 \<and> file_exists ex_emptied
   \<and> \<not> in_use_mutex ex_emptied \<and> ref_locked ex_emptied = 0"
  unfolding ex_emptied_def
  by (simp add: ex_map_def eval_defs cong: eval_congs)

text \<open>
  C8 (as stated): whenever an erase makes the map empty, the backing file is unlinked.
  On the example map, \<open>set(5, 7); erase(5)\<close> leaves an empty map whose file still exists.
\<close>
theorem erase_to_empty_counterexample:
  "map_option size_map (run ex_map [Set 5 7, Erase 5]) = Some 0
   \<and> map_option file_exists (run ex_map [Set 5 7, Erase 5]) = Some True"
  using ex_emptied_eval by simp

text \<open>
  C8 (amended): \<open>erase\<close> never unlinks the backing file, also when it makes the map
  empty: a file that exists before \<open>erase\<close> exists after it. The file of an empty map is
  unlinked when the reclamation callback \<open>gc_done\<close> next runs on its mapping (with a file
  descriptor open), and the file of a named map is unlinked by an explicit \<open>clear()\<close>.
\<close>
theorem file_unlinked_by_gc_done_or_clear:
  "(\<forall>r s'. erase s k = Some (r, s') \<and> file_exists s \<longrightarrow> file_exists s')
   \<and> (\<forall>s'. gc_done s (mmap_base s) = Some (True, s') \<and> 0 \<le> mmap_fd s \<and> empty_map s
          \<longrightarrow> \<not> file_exists s')
   \<and> (\<forall>s'. clear s = Some s' \<and> mmap_name s \<noteq> [] \<longrightarrow> \<not> file_exists s')"
proof (intro conjI allI impI)
  fix r s' assume "erase s k = Some (r, s') \<and> file_exists s"
  then show "file_exists s'" using erase_keeps_file by blast
next
  fix s' assume "gc_done s (mmap_base s) = Some (True, s') \<and> 0 \<le> mmap_fd s \<and> empty_map s"
  then show "\<not> file_exists s'"
    by (auto simp: gc_done_def unlink_def file_exists_def assert_that_def empty_map_def
                   hdr_defs Let_def
             split: if_splits Option.bind_splits)
next
  fix s' assume "clear s = Some s' \<and> mmap_name s \<noteq> []"
  then show "\<not> file_exists s'"
    by (auto simp: clear_def gc_defs file_exists_def assert_that_def spin_lock_def Let_def
             split: if_splits Option.bind_splits)
qed

theorem file_unlinked_by_gc_done_or_clear_witness:
  "file_exists ex_emptied \<and> 0 \<le> mmap_fd ex_emptied \<and> empty_map ex_emptied
   \<and> mmap_name ex_emptied \<noteq> []
   \<and> (\<exists>r s'. erase ex_emptied 5 = Some (r, s') \<and> file_exists s')
   \<and> (\<exists>s'. gc_done ex_emptied (mmap_base ex_emptied) = Some (True, s') \<and> \<not> file_exists s')
   \<and> (\<exists>s'. clear ex_emptied = Some s' \<and> \<not> file_exists s')"
proof -
  note e = ex_emptied_eval
  have h: "file_exists ex_emptied" "0 \<le> mmap_fd ex_emptied" "empty_map ex_emptied"
      "mmap_name ex_emptied \<noteq> []"
    using e by (simp_all add: empty_map_def size_map_def)
  obtain r s1 where 1: "erase ex_emptied 5 = Some (r, s1)"
    unfolding ex_emptied_def by (simp add: ex_map_def eval_defs cong: eval_congs)
  obtain s2 where 2: "gc_done ex_emptied (mmap_base ex_emptied) = Some (True, s2)"
    unfolding ex_emptied_def by (simp add: ex_map_def eval_defs cong: eval_congs)
  obtain s3 where 3: "clear ex_emptied = Some s3"
    unfolding ex_emptied_def by (simp add: ex_map_def clear_def eval_defs cong: eval_congs)
  show ?thesis
    using h 1 2 3 file_unlinked_by_gc_done_or_clear [of ex_emptied 5] by blast
qed

subsection \<open>Giving up a hash bit: \<open>try_increase_info\<close>\<close>








lemma ex_emptied_header:
  "mInfoInc ex_emptied = 32 \<and> mInfoHashShift ex_emptied = 27 \<and> mMask ex_emptied = 1023
   \<and> mInfo ex_emptied 1024 = 1 \<and> LoadFactor100 ex_emptied = 80
   \<and> mNumElements ex_emptied = 0"
  unfolding ex_emptied_def
  by (simp add: ex_map_def eval_defs cong: eval_congs)







subsection \<open>Erasing at the end of the table\<close>

lemma ex_dup_eval:
  "run ex_map [Set 725 1, Set 2071 2, Erase 725, Set 2071 3] = Some ex_dup
   \<and> size_map ex_dup = 2
   \<and> mInfo ex_dup 1023 = 17 \<and> mKeyVals ex_dup 1023 = (2071, 3)
   \<and> mInfo ex_dup 0 = 49 \<and> mKeyVals ex_dup 0 = (2071, 2)"
  unfolding ex_dup_def
  by (simp add: ex_map_def eval_defs cong: eval_congs)

text \<open>
  C3, at the failing input. The keys 725 and 2071 share the home slot 1023, so the second
  is stored in slot 0, wrapped around. \<open>erase(725)\<close> empties slot 1023 without pulling
  slot 0 back (\<open>shiftDown\<close> looks at \<open>mInfo[idx + 1]\<close>, the sentinel), so \<open>set(2071, 3)\<close>
  stores the key a second time. Then \<open>erase(2071)\<close> returns 1 and the size drops from 2
  to 1, but \<open>has(2071)\<close> is still true and a second \<open>erase(2071)\<close> returns 1 again.
\<close>
theorem erase_after_wraparound_keeps_key:
  "size_map ex_dup = 2
   \<and> result_of (has ex_dup 2071) = Some True
   \<and> result_of (erase ex_dup 2071) = Some 1
   \<and> map_option size_map (state_of (erase ex_dup 2071)) = Some 1
   \<and> result_of (state_of (erase ex_dup 2071) \<bind> (\<lambda>s. has s 2071)) = Some True
   \<and> result_of (state_of (erase ex_dup 2071) \<bind> (\<lambda>s. erase s 2071)) = Some 1"
  unfolding ex_dup_def
  by (simp add: ex_map_def eval_defs cong: eval_congs)

subsection \<open>Index arithmetic\<close>

lemma nat_and_mask_mod: "(x::nat) AND (2 ^ n - 1) = x mod 2 ^ n"
  by (metis take_bit_eq_mask take_bit_eq_mod mask_eq_exp_minus_1)

lemma next_idx_pos:
  assumes "msk + 1 = 2 ^ n"
  shows "next_idx msk (pos msk a t) = pos msk a (Suc t)"
proof -
  have m: "msk = 2 ^ n - 1" using assms by simp
  have "next_idx msk (pos msk a t) = ((a + t) mod 2 ^ n + 1) mod 2 ^ n"
    unfolding next_idx_def pos_def using assms nat_and_mask_mod [of _ n] by (simp add: m)
  also have "\<dots> = pos msk a (Suc t)"
    unfolding pos_def using assms by (simp add: mod_Suc_eq)
  finally show ?thesis .
qed

lemma pos_0: "a \<le> msk \<Longrightarrow> pos msk a 0 = a"
  by (simp add: pos_def)

lemma pos_le: "pos msk a t \<le> msk"
  by (simp add: pos_def less_Suc_eq_le [symmetric])

lemma pos_add: "pos msk (pos msk a t) u = pos msk a (t + u)"
  by (simp add: pos_def mod_add_left_eq add.assoc)

lemma pos_inj:
  assumes "pos msk a t = pos msk a u" and "t \<le> u" and "u - t < msk + 1"
  shows "t = u"
proof (rule ccontr)
  assume "t \<noteq> u"
  then have lt: "t < u" using assms(2) by simp
  have "(a + t) mod (msk + 1) = (a + t + (u - t)) mod (msk + 1)"
    using assms(1) lt by (simp add: pos_def)
  then have "(u - t) mod (msk + 1) = 0"
    by (metis add_cancel_right_right mod_add_left_eq mod_add_right_eq  mod_mod_trivial add.commute add_diff_cancel_left' mod_eq_dvd_iff_nat dvd_eq_mod_eq_0 le_add2)
  then show False using assms(3) lt by simp
qed

lemma next_idx_le: "next_idx msk idx \<le> msk"
  by (simp add: next_idx_def nat_and_le)

lemma prev_idx_pos:
  assumes "msk + 1 = 2 ^ n" and "msk < 2 ^ 32"
  shows "prev_idx msk (pos msk a (Suc t)) = pos msk a t"
proof -
  define x where "x = (a + t) mod (msk + 1)"
  have xl: "x \<le> msk" by (simp add: x_def less_Suc_eq_le [symmetric])
  have p: "pos msk a (Suc t) = (if x = msk then 0 else x + 1)"
    unfolding pos_def x_def by (simp add: mod_Suc)
  have m: "msk = 2 ^ n - 1" using assms by simp
  show ?thesis
  proof (cases "x = msk")
    case True
    have "msk AND (2 ^ 64 - 1) = msk mod 2 ^ 64" by (rule nat_and_mask_mod)
    then have "u64_max AND msk = msk"
      using assms(2) by (simp add: u64_max_def and.commute)
    then show ?thesis using True p assms(2) by (simp add: prev_idx_def pos_def x_def)
  next
    case False
    then have "x < 2 ^ n" using xl m by simp
    then have "x AND msk = x" unfolding m nat_and_mask_mod by simp
    moreover have "x mod 2 ^ 32 = x" using xl assms(2) by simp
    ultimately have "prev_idx msk (x + 1) = x" by (simp add: prev_idx_def)
    then show ?thesis using False p by (simp add: pos_def x_def)
  qed
qed

subsection \<open>The probing loops\<close>

lemma uint8_lt: "uint (w :: 8 word) < 256"
  using uint_lt2p [of w] by simp

lemma nextWhileLess_char:
  assumes "0 < inc" and "msk + 1 = 2 ^ n"
  shows "\<exists>j. nextWhileLess mi inc msk info (pos msk a t0)
               = Some (info + int j * inc, pos msk a (t0 + j))
           \<and> (\<forall>t<j. info + int t * inc < uint (mi (pos msk a (t0 + t))))
           \<and> \<not> info + int j * inc < uint (mi (pos msk a (t0 + j)))"
proof (induction "nat (256 - info)" arbitrary: info t0 rule: less_induct)
  case less
  show ?case
  proof (cases "info < uint (mi (pos msk a t0))")
    case False
    then have "nextWhileLess mi inc msk info (pos msk a t0) = Some (info, pos msk a t0)"
      by (subst nextWhileLess.simps) simp
    then show ?thesis using False by (intro exI [of _ 0]) simp
  next
    case True
    then have "info < 256" using uint8_lt [of "mi (pos msk a t0)"] by simp
    then have "nat (256 - (info + inc)) < nat (256 - info)" using assms(1) by simp
    from less [OF this, of "Suc t0"] obtain j where
      j: "nextWhileLess mi inc msk (info + inc) (pos msk a (Suc t0))
            = Some (info + inc + int j * inc, pos msk a (Suc t0 + j))"
        "\<forall>t<j. info + inc + int t * inc < uint (mi (pos msk a (Suc t0 + t)))"
        "\<not> info + inc + int j * inc < uint (mi (pos msk a (Suc t0 + j)))"
      by blast
    have 1: "nextWhileLess mi inc msk info (pos msk a t0)
          = Some (info + int (Suc j) * inc, pos msk a (t0 + Suc j))"
      by (subst nextWhileLess.simps)
         (use True j(1) in \<open>simp add: next_info_def next_idx_pos [OF assms(2)] algebra_simps\<close>)
    have 2: "\<forall>t<Suc j. info + int t * inc < uint (mi (pos msk a (t0 + t)))"
    proof (intro allI impI)
      fix t assume "t < Suc j"
      show "info + int t * inc < uint (mi (pos msk a (t0 + t)))"
      proof (cases t)
        case 0 then show ?thesis using True by simp
      next
        case (Suc u)
        then have "u < j" using \<open>t < Suc j\<close> by simp
        then have "info + inc + int u * inc < uint (mi (pos msk a (Suc t0 + u)))"
          using j(2) by blast
        then show ?thesis using Suc by (simp add: algebra_simps)
      qed
    qed
    have 3: "\<not> info + int (Suc j) * inc < uint (mi (pos msk a (t0 + Suc j)))"
      using j(3) by (simp add: algebra_simps)
    show ?thesis using 1 2 3 by blast
  qed
qed


lemma skip_leq_loop_char:
  assumes "0 < inc" and "msk + 1 = 2 ^ n"
  shows "\<exists>j. skip_leq_loop mi inc msk info (pos msk a t0)
               = Some (info + int j * inc, pos msk a (t0 + j))
           \<and> (\<forall>t<j. info + int t * inc \<le> uint (mi (pos msk a (t0 + t))))
           \<and> \<not> info + int j * inc \<le> uint (mi (pos msk a (t0 + j)))"
proof (induction "nat (256 - info)" arbitrary: info t0 rule: less_induct)
  case less
  show ?case
  proof (cases "info \<le> uint (mi (pos msk a t0))")
    case False
    then have "skip_leq_loop mi inc msk info (pos msk a t0) = Some (info, pos msk a t0)"
      by (subst skip_leq_loop.simps) simp
    then show ?thesis using False by (intro exI [of _ 0]) simp
  next
    case True
    then have "info < 256" using uint8_lt [of "mi (pos msk a t0)"] by simp
    then have "nat (256 - (info + inc)) < nat (256 - info)" using assms(1) by simp
    from less [OF this, of "Suc t0"] obtain j where
      j: "skip_leq_loop mi inc msk (info + inc) (pos msk a (Suc t0))
            = Some (info + inc + int j * inc, pos msk a (Suc t0 + j))"
        "\<forall>t<j. info + inc + int t * inc \<le> uint (mi (pos msk a (Suc t0 + t)))"
        "\<not> info + inc + int j * inc \<le> uint (mi (pos msk a (Suc t0 + j)))"
      by blast
    have 1: "skip_leq_loop mi inc msk info (pos msk a t0)
          = Some (info + int (Suc j) * inc, pos msk a (t0 + Suc j))"
      by (subst skip_leq_loop.simps)
         (use True j(1) in \<open>simp add: next_info_def next_idx_pos [OF assms(2)] algebra_simps\<close>)
    have 2: "\<forall>t<Suc j. info + int t * inc \<le> uint (mi (pos msk a (t0 + t)))"
    proof (intro allI impI)
      fix t assume "t < Suc j"
      show "info + int t * inc \<le> uint (mi (pos msk a (t0 + t)))"
      proof (cases t)
        case 0 then show ?thesis using True by simp
      next
        case (Suc u)
        then have "u < j" using \<open>t < Suc j\<close> by simp
        then have "info + inc + int u * inc \<le> uint (mi (pos msk a (Suc t0 + u)))"
          using j(2) by blast
        then show ?thesis using Suc by (simp add: algebra_simps)
      qed
    qed
    have 3: "\<not> info + int (Suc j) * inc \<le> uint (mi (pos msk a (t0 + Suc j)))"
      using j(3) by (simp add: algebra_simps)
    show ?thesis using 1 2 3 by blast
  qed
qed

lemma match_loop_char:
  assumes "0 < inc" and "msk + 1 = 2 ^ n"
  shows "\<exists>j found. match_loop mi kv inc msk key info (pos msk a t0)
               = Some (found, info + int j * inc, pos msk a (t0 + j))
           \<and> (\<forall>t<j. info + int t * inc = uint (mi (pos msk a (t0 + t)))
                    \<and> key \<noteq> fst (kv (pos msk a (t0 + t))))
           \<and> (if found then info + int j * inc = uint (mi (pos msk a (t0 + j)))
                            \<and> key = fst (kv (pos msk a (t0 + j)))
               else info + int j * inc \<noteq> uint (mi (pos msk a (t0 + j))))"
proof (induction "nat (256 - info)" arbitrary: info t0 rule: less_induct)
  case less
  show ?case
  proof (cases "info = uint (mi (pos msk a t0))")
    case False
    then have "match_loop mi kv inc msk key info (pos msk a t0)
                 = Some (False, info, pos msk a t0)"
      by (subst match_loop.simps) simp
    then show ?thesis using False by (intro exI [of _ 0] exI [of _ False]) simp
  next
    case True
    show ?thesis
    proof (cases "key = fst (kv (pos msk a t0))")
      case k: True
      have "match_loop mi kv inc msk key info (pos msk a t0)
                 = Some (True, info, pos msk a t0)"
        by (subst match_loop.simps) (use True k in simp)
      then show ?thesis using True k by (intro exI [of _ 0] exI [of _ True]) simp
    next
      case k: False
      have "info < 256" using True uint8_lt [of "mi (pos msk a t0)"] by simp
      then have "nat (256 - (info + inc)) < nat (256 - info)" using assms(1) by simp
      from less [OF this, of "Suc t0"] obtain j found where
        j: "match_loop mi kv inc msk key (info + inc) (pos msk a (Suc t0))
              = Some (found, info + inc + int j * inc, pos msk a (Suc t0 + j))"
          "\<forall>t<j. info + inc + int t * inc = uint (mi (pos msk a (Suc t0 + t)))
                 \<and> key \<noteq> fst (kv (pos msk a (Suc t0 + t)))"
          "if found then info + inc + int j * inc = uint (mi (pos msk a (Suc t0 + j)))
                            \<and> key = fst (kv (pos msk a (Suc t0 + j)))
           else info + inc + int j * inc \<noteq> uint (mi (pos msk a (Suc t0 + j)))"
        by blast
      have 1: "match_loop mi kv inc msk key info (pos msk a t0)
            = Some (found, info + int (Suc j) * inc, pos msk a (t0 + Suc j))"
        by (subst match_loop.simps)
           (use True k j(1) in \<open>simp add: next_info_def next_idx_pos [OF assms(2)] algebra_simps\<close>)
      have 2: "\<forall>t<Suc j. info + int t * inc = uint (mi (pos msk a (t0 + t)))
                 \<and> key \<noteq> fst (kv (pos msk a (t0 + t)))"
      proof (intro allI impI)
        fix t assume "t < Suc j"
        show "info + int t * inc = uint (mi (pos msk a (t0 + t)))
                 \<and> key \<noteq> fst (kv (pos msk a (t0 + t)))"
        proof (cases t)
          case 0 then show ?thesis using True k by simp
        next
          case (Suc u)
          then have "u < j" using \<open>t < Suc j\<close> by simp
          then have "info + inc + int u * inc = uint (mi (pos msk a (Suc t0 + u)))
                 \<and> key \<noteq> fst (kv (pos msk a (Suc t0 + u)))"
            using j(2) by blast
          then show ?thesis using Suc by (simp add: algebra_simps)
        qed
      qed
      have 3: "if found then info + int (Suc j) * inc = uint (mi (pos msk a (t0 + Suc j)))
                            \<and> key = fst (kv (pos msk a (t0 + Suc j)))
               else info + int (Suc j) * inc \<noteq> uint (mi (pos msk a (t0 + Suc j)))"
        using j(3) by (cases found) (simp_all add: algebra_simps)
      show ?thesis using 1 2 3 by blast
    qed
  qed
qed

lemma find_empty_loop_char:
  assumes "msk + 1 = 2 ^ n" and "mi (pos msk a (t0 + m)) = 0"
  shows "\<exists>j\<le>m. find_empty_loop mi inc msk info (pos msk a t0)
               = Some (info + int j * inc, pos msk a (t0 + j))
           \<and> mi (pos msk a (t0 + j)) = 0
           \<and> (\<forall>t<j. mi (pos msk a (t0 + t)) \<noteq> 0)"
  using assms(2)
proof (induction m arbitrary: info t0)
  case 0
  then have "find_empty_loop mi inc msk info (pos msk a t0) = Some (info, pos msk a t0)"
    by (subst find_empty_loop.simps) simp
  then show ?case using 0 by (intro exI [of _ 0]) simp
next
  case (Suc m)
  show ?case
  proof (cases "mi (pos msk a t0) = 0")
    case True
    then have "find_empty_loop mi inc msk info (pos msk a t0) = Some (info, pos msk a t0)"
      by (subst find_empty_loop.simps) simp
    then show ?thesis using True by (intro exI [of _ 0]) simp
  next
    case False
    have "mi (pos msk a (Suc t0 + m)) = 0" using Suc.prems by simp
    from Suc.IH [OF this, of "info + inc"] obtain j where
      j: "j \<le> m" "find_empty_loop mi inc msk (info + inc) (pos msk a (Suc t0))
            = Some (info + inc + int j * inc, pos msk a (Suc t0 + j))"
        "mi (pos msk a (Suc t0 + j)) = 0"
        "\<forall>t<j. mi (pos msk a (Suc t0 + t)) \<noteq> 0"
      by blast
    have 1: "find_empty_loop mi inc msk info (pos msk a t0)
          = Some (info + int (Suc j) * inc, pos msk a (t0 + Suc j))"
      by (subst find_empty_loop.simps)
         (use False j(2) in \<open>simp add: next_info_def next_idx_pos [OF assms(1)] algebra_simps\<close>)
    have 2: "\<forall>t<Suc j. mi (pos msk a (t0 + t)) \<noteq> 0"
    proof (intro allI impI)
      fix t assume "t < Suc j"
      show "mi (pos msk a (t0 + t)) \<noteq> 0"
      proof (cases t)
        case 0 then show ?thesis using False by simp
      next
        case (Suc u)
        then have "u < j" using \<open>t < Suc j\<close> by simp
        then have "mi (pos msk a (Suc t0 + u)) \<noteq> 0" using j(4) by blast
        then show ?thesis using Suc by simp
      qed
    qed
    show ?thesis using 1 2 j(1) j(3) by (intro exI [of _ "Suc j"]) simp
  qed
qed

lemma pos_neq:
  assumes "t < u" and "u - t < msk + 1"
  shows "pos msk a t \<noteq> pos msk a u"
  using pos_inj [of msk a t u] assms by auto

lemma pos_distinct:
  assumes "t \<noteq> u" and "t < msk + 1" and "u < msk + 1"
  shows "pos msk a t \<noteq> pos msk a u"
proof (cases "t < u")
  case True
  then show ?thesis using pos_neq [of t u msk a] assms by simp
next
  case False
  then have "u < t" using assms(1) by simp
  then show ?thesis using pos_neq [of u t msk a] assms by (metis less_imp_diff_less)
qed

lemma shiftUp_loop_char:
  assumes "msk + 1 = 2 ^ n" and "msk < 2 ^ 32" and "m < msk + 1"
  shows "\<exists>mi' kv' mx'.
     shiftUp_loop inc msk (pos msk a 0) mi kv mx (pos msk a m) = Some (mi', kv', mx')
     \<and> (\<forall>i. (\<forall>t. 1 \<le> t \<and> t \<le> m \<longrightarrow> i \<noteq> pos msk a t) \<longrightarrow> mi' i = mi i \<and> kv' i = kv i)
     \<and> (\<forall>t. 1 \<le> t \<and> t \<le> m \<longrightarrow>
            mi' (pos msk a t) = word_of_int (uint (mi (pos msk a (t - 1))) + inc)
            \<and> kv' (pos msk a t) = kv (pos msk a (t - 1)))
     \<and> (mx' = 0 \<or> mx' = mx)
     \<and> (mx' \<noteq> 0 \<longrightarrow> (\<forall>t. 1 \<le> t \<and> t \<le> m \<longrightarrow> uint (mi' (pos msk a t)) + inc \<le> 255))"
  using assms(3)
proof (induction m arbitrary: mi kv mx)
  case 0
  have "shiftUp_loop inc msk (pos msk a 0) mi kv mx (pos msk a 0) = Some (mi, kv, mx)"
    by (subst shiftUp_loop.simps) simp
  then show ?case by simp
next
  case (Suc m)
  let ?i = "pos msk a (Suc m)"
  let ?p = "pos msk a m"
  define mi1 where "mi1 = mi(?i := word_of_int (uint (mi ?p) + inc))"
  define kv1 where "kv1 = kv(?i := kv ?p)"
  define mx1 where "mx1 = (if uint (mi1 ?i) + inc > 0xFF then 0 else mx)"
  have ne: "?i \<noteq> pos msk a 0" using pos_distinct [of "Suc m" 0 msk a] Suc.prems by simp
  have pr: "prev_idx msk ?i = ?p" by (rule prev_idx_pos [OF assms(1,2)])
  have step: "shiftUp_loop inc msk (pos msk a 0) mi kv mx ?i
                = shiftUp_loop inc msk (pos msk a 0) mi1 kv1 mx1 ?p"
    by (subst shiftUp_loop.simps) (simp add: ne pr Let_def mi1_def kv1_def mx1_def)
  have "m < msk + 1" using Suc.prems by simp
  from Suc.IH [OF this, of mi1 kv1 mx1] obtain mi' kv' mx' where
    r: "shiftUp_loop inc msk (pos msk a 0) mi1 kv1 mx1 ?p = Some (mi', kv', mx')"
    and same: "\<And>i. (\<forall>t. 1 \<le> t \<and> t \<le> m \<longrightarrow> i \<noteq> pos msk a t) \<Longrightarrow> mi' i = mi1 i \<and> kv' i = kv1 i"
    and moved: "\<And>t. 1 \<le> t \<Longrightarrow> t \<le> m \<Longrightarrow>
            mi' (pos msk a t) = word_of_int (uint (mi1 (pos msk a (t - 1))) + inc)
            \<and> kv' (pos msk a t) = kv1 (pos msk a (t - 1))"
    and mx: "mx' = 0 \<or> mx' = mx1"
    and ok: "mx' \<noteq> 0 \<Longrightarrow> (\<forall>t. 1 \<le> t \<and> t \<le> m \<longrightarrow> uint (mi' (pos msk a t)) + inc \<le> 255)"
    by blast
  have top: "mi' ?i = mi1 ?i \<and> kv' ?i = kv1 ?i"
  proof (rule same, intro allI impI)
    fix t assume "1 \<le> t \<and> t \<le> m"
    then show "?i \<noteq> pos msk a t" using pos_distinct [of "Suc m" t msk a] Suc.prems by simp
  qed
  have 1: "\<forall>i. (\<forall>t. 1 \<le> t \<and> t \<le> Suc m \<longrightarrow> i \<noteq> pos msk a t) \<longrightarrow> mi' i = mi i \<and> kv' i = kv i"
  proof (intro allI impI)
    fix i assume h: "\<forall>t. 1 \<le> t \<and> t \<le> Suc m \<longrightarrow> i \<noteq> pos msk a t"
    then have "i \<noteq> ?i" by auto
    moreover have "mi' i = mi1 i \<and> kv' i = kv1 i" using h by (intro same) auto
    ultimately show "mi' i = mi i \<and> kv' i = kv i" by (simp add: mi1_def kv1_def)
  qed
  have 2: "\<forall>t. 1 \<le> t \<and> t \<le> Suc m \<longrightarrow>
            mi' (pos msk a t) = word_of_int (uint (mi (pos msk a (t - 1))) + inc)
            \<and> kv' (pos msk a t) = kv (pos msk a (t - 1))"
  proof (intro allI impI)
    fix t assume t: "1 \<le> t \<and> t \<le> Suc m"
    show "mi' (pos msk a t) = word_of_int (uint (mi (pos msk a (t - 1))) + inc)
            \<and> kv' (pos msk a t) = kv (pos msk a (t - 1))"
    proof (cases "t = Suc m")
      case True
      then show ?thesis using top by (simp add: mi1_def kv1_def)
    next
      case False
      then have tm: "t \<le> m" using t by simp
      have "pos msk a (t - 1) \<noteq> ?i"
        using pos_distinct [of "t - 1" "Suc m" msk a] Suc.prems tm by simp
      then have "mi1 (pos msk a (t - 1)) = mi (pos msk a (t - 1))"
          "kv1 (pos msk a (t - 1)) = kv (pos msk a (t - 1))"
        by (simp_all add: mi1_def kv1_def)
      then show ?thesis using moved [of t] t tm by simp
    qed
  qed
  have 3: "mx' = 0 \<or> mx' = mx" using mx by (auto simp: mx1_def)
  have 4: "mx' \<noteq> 0 \<longrightarrow> (\<forall>t. 1 \<le> t \<and> t \<le> Suc m \<longrightarrow> uint (mi' (pos msk a t)) + inc \<le> 255)"
  proof (intro allI impI)
    fix t assume nz: "mx' \<noteq> 0" and t: "1 \<le> t \<and> t \<le> Suc m"
    show "uint (mi' (pos msk a t)) + inc \<le> 255"
    proof (cases "t = Suc m")
      case True
      have "mx1 \<noteq> 0" using mx nz by auto
      then have "uint (mi1 ?i) + inc \<le> 255" by (auto simp: mx1_def split: if_splits)
      then show ?thesis using True top by simp
    next
      case False
      then show ?thesis using ok [OF nz] t by simp
    qed
  qed
  show ?case using step r 1 2 3 4 by (simp only:) blast
qed

lemma findIdx_loop_hit:
  assumes "0 < inc" and "msk + 1 = 2 ^ n"
    and "\<forall>t<j. info + int t * inc \<le> uint (mi (pos msk a (t0 + t)))
               \<and> \<not> (info + int t * inc = uint (mi (pos msk a (t0 + t)))
                    \<and> key = fst (kv (pos msk a (t0 + t))))"
    and "info + int j * inc = uint (mi (pos msk a (t0 + j)))"
    and "key = fst (kv (pos msk a (t0 + j)))"
  shows "findIdx_loop mi kv inc msk key info (pos msk a t0) = Some (int (pos msk a (t0 + j)))"
proof -
  define half where "half = (\<lambda>info idx.
     if info = uint (mi idx) \<and> key = fst (kv idx) then Some (int idx)
     else (let idx2 = next_idx msk idx; info2 = next_info inc info in
           if info2 \<le> uint (mi idx2) then findIdx_loop mi kv inc msk key info2 idx2
           else Some (- 1)))"
  have unf: "\<And>info idx. findIdx_loop mi kv inc msk key info idx
       = (if info = uint (mi idx) \<and> key = fst (kv idx) then Some (int idx)
          else half (next_info inc info) (next_idx msk idx))"
    by (subst findIdx_loop.simps) (simp add: half_def Let_def)
  have "findIdx_loop mi kv inc msk key info (pos msk a t0) = Some (int (pos msk a (t0 + j)))
        \<and> half info (pos msk a t0) = Some (int (pos msk a (t0 + j)))"
    using assms(3,4,5)
  proof (induction j arbitrary: info t0)
    case 0
    have "findIdx_loop mi kv inc msk key info (pos msk a t0) = Some (int (pos msk a t0))"
      by (subst unf) (use 0 in simp)
    moreover have "half info (pos msk a t0) = Some (int (pos msk a t0))"
      unfolding half_def using 0 by simp
    ultimately show ?case by simp
  next
    case (Suc j)
    have h0: "info \<le> uint (mi (pos msk a t0))"
        "\<not> (info = uint (mi (pos msk a t0)) \<and> key = fst (kv (pos msk a t0)))"
      using Suc.prems(1) [rule_format, of 0] by simp_all
    have p: "\<forall>t<j. info + inc + int t * inc \<le> uint (mi (pos msk a (Suc t0 + t)))
               \<and> \<not> (info + inc + int t * inc = uint (mi (pos msk a (Suc t0 + t)))
                    \<and> key = fst (kv (pos msk a (Suc t0 + t))))"
    proof (intro allI impI)
      fix t assume "t < j"
      then have "Suc t < Suc j" by simp
      from Suc.prems(1) [rule_format, OF this]
      show "info + inc + int t * inc \<le> uint (mi (pos msk a (Suc t0 + t)))
               \<and> \<not> (info + inc + int t * inc = uint (mi (pos msk a (Suc t0 + t)))
                    \<and> key = fst (kv (pos msk a (Suc t0 + t))))"
        by (simp add: algebra_simps)
    qed
    have q: "info + inc + int j * inc = uint (mi (pos msk a (Suc t0 + j)))"
        "key = fst (kv (pos msk a (Suc t0 + j)))"
      using Suc.prems(2,3) by (simp_all add: algebra_simps)
    from Suc.IH [OF p q] have ih:
      "findIdx_loop mi kv inc msk key (info + inc) (pos msk a (Suc t0))
         = Some (int (pos msk a (t0 + Suc j)))"
      "half (info + inc) (pos msk a (Suc t0)) = Some (int (pos msk a (t0 + Suc j)))"
      by simp_all
    have le1: "info + inc \<le> uint (mi (pos msk a (Suc t0)))"
    proof (cases j)
      case 0 then show ?thesis using q(1) by simp
    next
      case (Suc j') then show ?thesis using p [rule_format, of 0] by simp
    qed
    have 1: "findIdx_loop mi kv inc msk key info (pos msk a t0)
               = Some (int (pos msk a (t0 + Suc j)))"
      by (subst unf) (use h0(2) ih(2) in \<open>auto simp: next_info_def next_idx_pos [OF assms(2)]\<close>)
    have 2: "half info (pos msk a t0) = Some (int (pos msk a (t0 + Suc j)))"
      unfolding half_def using h0(2) ih(1) le1
      by (auto simp: Let_def next_info_def next_idx_pos [OF assms(2)])
    show ?case using 1 2 by simp
  qed
  then show ?thesis by simp
qed

lemma erase_loop_char:
  assumes "0 < inc" and "msk + 1 = 2 ^ n"
  shows "\<exists>r. erase_loop mi kv inc msk key info (pos msk a t0) = Some r
           \<and> (\<forall>i. r = Some i \<longrightarrow>
                 (\<exists>j. i = pos msk a (t0 + j) \<and> info + int j * inc = uint (mi i)
                      \<and> key = fst (kv i)))"
proof (induction "nat (256 - info)" arbitrary: info t0 rule: less_induct)
  case less
  show ?case
  proof (cases "info = uint (mi (pos msk a t0)) \<and> key = fst (kv (pos msk a t0))")
    case True
    then have "erase_loop mi kv inc msk key info (pos msk a t0) = Some (Some (pos msk a t0))"
      by (subst erase_loop.simps) simp
    then show ?thesis using True by (auto intro: exI [of _ 0])
  next
    case False
    show ?thesis
    proof (cases "info + inc \<le> uint (mi (pos msk a (Suc t0)))")
      case le: True
      then have "info + inc < 256" using uint8_lt [of "mi (pos msk a (Suc t0))"] by simp
      then have "nat (256 - (info + inc)) < nat (256 - info)" using assms(1) by simp
      from less [OF this, of "Suc t0"] obtain r where
        r: "erase_loop mi kv inc msk key (info + inc) (pos msk a (Suc t0)) = Some r"
          "\<forall>i. r = Some i \<longrightarrow>
                 (\<exists>j. i = pos msk a (Suc t0 + j) \<and> info + inc + int j * inc = uint (mi i)
                      \<and> key = fst (kv i))"
        by blast
      have 1: "erase_loop mi kv inc msk key info (pos msk a t0) = Some r"
        by (subst erase_loop.simps)
           (use False le r(1) in \<open>auto simp: Let_def next_info_def next_idx_pos [OF assms(2)]\<close>)
      have 2: "\<forall>i. r = Some i \<longrightarrow>
                 (\<exists>j. i = pos msk a (t0 + j) \<and> info + int j * inc = uint (mi i)
                      \<and> key = fst (kv i))"
      proof (intro allI impI)
        fix i assume "r = Some i"
        with r(2) obtain j where "i = pos msk a (Suc t0 + j)"
          "info + inc + int j * inc = uint (mi i)" "key = fst (kv i)" by blast
        then show "\<exists>j. i = pos msk a (t0 + j) \<and> info + int j * inc = uint (mi i)
                      \<and> key = fst (kv i)"
          by (intro exI [of _ "Suc j"]) (simp add: algebra_simps)
      qed
      show ?thesis using 1 2 by blast
    next
      case gt: False
      have "erase_loop mi kv inc msk key info (pos msk a t0) = Some None"
        by (subst erase_loop.simps)
           (use False gt in \<open>auto simp: Let_def next_info_def next_idx_pos [OF assms(2)]\<close>)
      then show ?thesis by simp
    qed
  qed
qed

lemma shiftDown_loop_char:
  assumes "0 < inc" and "uint (mi (msk + 1)) < 2 * inc" and "idx \<le> msk"
  shows "\<exists>mi' kv' e. shiftDown_loop inc mi kv idx = Some (mi', kv', e)
     \<and> idx \<le> e \<and> e \<le> msk
     \<and> (\<forall>i. i < idx \<or> e \<le> i \<longrightarrow> mi' i = mi i \<and> kv' i = kv i)
     \<and> (\<forall>i. idx \<le> i \<and> i < e \<longrightarrow>
            mi' i = word_of_int (uint (mi (i + 1)) - inc) \<and> 2 * inc \<le> uint (mi (i + 1))
            \<and> kv' i = kv (i + 1))"
  using assms(2,3)
proof (induction "msk - idx" arbitrary: idx mi kv)
  case 0
  then have i: "idx = msk" by simp
  have "shiftDown_loop inc mi kv idx = Some (mi, kv, idx)"
    by (subst shiftDown_loop.simps) (use 0 i in simp)
  then show ?case using i by auto
next
  case (Suc d)
  show ?case
  proof (cases "2 * inc \<le> uint (mi (idx + 1))")
    case False
    have "shiftDown_loop inc mi kv idx = Some (mi, kv, idx)"
      by (subst shiftDown_loop.simps) (use False in simp)
    then show ?thesis using Suc.prems by auto
  next
    case True
    define mi1 where "mi1 = mi(idx := word_of_int (uint (mi (idx + 1)) - inc))"
    define kv1 where "kv1 = kv(idx := kv (idx + 1))"
    have lt: "idx < msk" using Suc.hyps(2) by simp
    have step: "shiftDown_loop inc mi kv idx = shiftDown_loop inc mi1 kv1 (idx + 1)"
      by (subst shiftDown_loop.simps) (use True in \<open>simp add: mi1_def kv1_def\<close>)
    have d: "d = msk - (idx + 1)" using Suc.hyps(2) by simp
    have s1: "uint (mi1 (msk + 1)) < 2 * inc" using Suc.prems(1) lt by (simp add: mi1_def)
    have l1: "idx + 1 \<le> msk" using lt by simp
    from Suc.hyps(1) [of "idx + 1" mi1 kv1, OF d s1 l1] obtain mi' kv' e where
      r: "shiftDown_loop inc mi1 kv1 (idx + 1) = Some (mi', kv', e)"
      and e: "idx + 1 \<le> e" "e \<le> msk"
      and same: "\<And>i. i < idx + 1 \<or> e \<le> i \<Longrightarrow> mi' i = mi1 i \<and> kv' i = kv1 i"
      and moved: "\<And>i. idx + 1 \<le> i \<Longrightarrow> i < e \<Longrightarrow>
            mi' i = word_of_int (uint (mi1 (i + 1)) - inc) \<and> 2 * inc \<le> uint (mi1 (i + 1))
            \<and> kv' i = kv1 (i + 1)"
      by blast
    have 1: "\<forall>i. i < idx \<or> e \<le> i \<longrightarrow> mi' i = mi i \<and> kv' i = kv i"
    proof (intro allI impI)
      fix i assume h: "i < idx \<or> e \<le> i"
      then have "i \<noteq> idx" using e by auto
      moreover have "mi' i = mi1 i \<and> kv' i = kv1 i" using h by (intro same) auto
      ultimately show "mi' i = mi i \<and> kv' i = kv i" by (simp add: mi1_def kv1_def)
    qed
    have 2: "\<forall>i. idx \<le> i \<and> i < e \<longrightarrow>
            mi' i = word_of_int (uint (mi (i + 1)) - inc) \<and> 2 * inc \<le> uint (mi (i + 1))
            \<and> kv' i = kv (i + 1)"
    proof (intro allI impI)
      fix i assume h: "idx \<le> i \<and> i < e"
      show "mi' i = word_of_int (uint (mi (i + 1)) - inc) \<and> 2 * inc \<le> uint (mi (i + 1))
            \<and> kv' i = kv (i + 1)"
      proof (cases "i = idx")
        case True
        have "mi' idx = mi1 idx \<and> kv' idx = kv1 idx" by (intro same) simp
        then show ?thesis using True \<open>2 * inc \<le> uint (mi (idx + 1))\<close>
          by (simp add: mi1_def kv1_def)
      next
        case False
        then have "idx + 1 \<le> i" using h by simp
        from moved [OF this] h have "mi' i = word_of_int (uint (mi1 (i + 1)) - inc)
            \<and> 2 * inc \<le> uint (mi1 (i + 1)) \<and> kv' i = kv1 (i + 1)" by simp
        moreover have "i + 1 \<noteq> idx" using h by simp
        ultimately show ?thesis by (simp add: mi1_def kv1_def)
      qed
    qed
    show ?thesis using step r e 1 2 by (intro exI [of _ mi'] exI [of _ kv'] exI [of _ e]) simp
  qed
qed


end
